theory Spec2Isabelle
  imports Main
begin

section \<open>Go strings and errors\<close>

text \<open>
  A Go string is a sequence of bytes, here a \<^typ>\<open>string\<close> (a list of 8-bit characters).
  The identifiers follow the Go sources: \<^verbatim>\<open>web/handlers/jobs.go\<close>,
  \<^verbatim>\<open>web/server/server.go\<close> and the \<^verbatim>\<open>main\<close> package.
\<close>

text \<open>\<^verbatim>\<open>strings.HasPrefix\<close>.\<close>

definition HasPrefix :: "string \<Rightarrow> string \<Rightarrow> bool" where
  "HasPrefix s p \<longleftrightarrow> length p \<le> length s \<and> take (length p) s = p"

text \<open>
  The UTF-8 encodings of the code points for which \<^verbatim>\<open>unicode.IsSpace\<close> holds: tab, line
  feed, vertical tab, form feed, carriage return, space, U+0085, U+00A0, U+1680,
  U+2000 to U+200A, U+2028, U+2029, U+202F, U+205F and U+3000. The decoder accepts the
  shortest encoding of a code point only, so a string starts (ends) with a white-space rune
  exactly when it starts (ends) with one of these byte sequences.
\<close>

definition space_runes :: "string list" where
  "space_runes =
    [[CHR 0x09], [CHR 0x0A], [CHR 0x0B], [CHR 0x0C], [CHR 0x0D], [CHR 0x20],
     [CHR 0xC2, CHR 0x85], [CHR 0xC2, CHR 0xA0],
     [CHR 0xE1, CHR 0x9A, CHR 0x80],
     [CHR 0xE2, CHR 0x80, CHR 0x80], [CHR 0xE2, CHR 0x80, CHR 0x81],
     [CHR 0xE2, CHR 0x80, CHR 0x82], [CHR 0xE2, CHR 0x80, CHR 0x83],
     [CHR 0xE2, CHR 0x80, CHR 0x84], [CHR 0xE2, CHR 0x80, CHR 0x85],
     [CHR 0xE2, CHR 0x80, CHR 0x86], [CHR 0xE2, CHR 0x80, CHR 0x87],
     [CHR 0xE2, CHR 0x80, CHR 0x88], [CHR 0xE2, CHR 0x80, CHR 0x89],
     [CHR 0xE2, CHR 0x80, CHR 0x8A],
     [CHR 0xE2, CHR 0x80, CHR 0xA8], [CHR 0xE2, CHR 0x80, CHR 0xA9],
     [CHR 0xE2, CHR 0x80, CHR 0xAF],
     [CHR 0xE2, CHR 0x81, CHR 0x9F],
     [CHR 0xE3, CHR 0x80, CHR 0x80]]"

text \<open>
  The loop of \<^verbatim>\<open>strings.TrimLeftFunc\<close>: while the string starts with one of the given
  runes, drop that rune.
\<close>

function trim_runes :: "string list \<Rightarrow> string \<Rightarrow> string" where
  "trim_runes runes s =
     (case find (\<lambda>e. e \<noteq> [] \<and> HasPrefix s e) runes of
        None \<Rightarrow> s
      | Some e \<Rightarrow> trim_runes runes (drop (length e) s))"
  by pat_completeness auto
termination
proof (relation "measure (\<lambda>(runes, s). length s)")
  show "wf (measure (\<lambda>(runes, s). length s))" by simp
next
  fix runes :: "string list" and s e :: string
  assume "find (\<lambda>e. e \<noteq> [] \<and> HasPrefix s e) runes = Some e"
  then have "e \<noteq> []" and "HasPrefix s e"
    by (auto simp: find_Some_iff)
  then have "length (drop (length e) s) < length s"
    by (cases e) (auto simp: HasPrefix_def)
  then show "((runes, drop (length e) s), (runes, s)) \<in> measure (\<lambda>(runes, s). length s)"
    by simp
qed

declare trim_runes.simps [simp del]

definition TrimLeftSpace :: "string \<Rightarrow> string" where
  "TrimLeftSpace s = trim_runes space_runes s"

text \<open>Trimming on the right is trimming the reversed string by the reversed encodings.\<close>

definition TrimRightSpace :: "string \<Rightarrow> string" where
  "TrimRightSpace s = rev (trim_runes (map rev space_runes) (rev s))"

text \<open>\<^verbatim>\<open>strings.TrimSpace\<close>: leading white space goes first, then trailing white space.\<close>

definition TrimSpace :: "string \<Rightarrow> string" where
  "TrimSpace s = TrimRightSpace (TrimLeftSpace s)"

text \<open>\<^verbatim>\<open>strings.Join\<close>.\<close>

fun Join :: "string list \<Rightarrow> string \<Rightarrow> string" where
  "Join [] sep = []"
| "Join [x] sep = x"
| "Join (x # y # ys) sep = x @ sep @ Join (y # ys) sep"

text \<open>The decimal digits that \<^verbatim>\<open>%d\<close> prints.\<close>

function decimal :: "nat \<Rightarrow> string" where
  "decimal n = (if n < 10 then [''0123456789'' ! n] else decimal (n div 10) @ [''0123456789'' ! (n mod 10)])"
  by pat_completeness auto
termination
  by (relation "measure id") auto

declare decimal.simps [simp del]

definition format_d :: "int \<Rightarrow> string" where
  "format_d i = (if i < 0 then CHR ''-'' # decimal (nat (- i)) else decimal (nat i))"

text \<open>
  Go errors. The two sentinels are compared by identity in the source, so each is a
  constructor of its own. \<open>ErrorString\<close> is an error made by \<^verbatim>\<open>errors.New\<close> or by
  \<^verbatim>\<open>fmt.Errorf\<close> without \<^verbatim>\<open>%w\<close>; \<open>WrapError\<close> is the error made by \<^verbatim>\<open>fmt.Errorf\<close> with
  \<^verbatim>\<open>%w\<close>: the wrapped error and the formatted message.
\<close>

datatype error =
    ErrInvalidRunMode
  | ErrServerClosed
  | ErrorString string
  | WrapError error string

text \<open>
  Modelled from the spec: \<^verbatim>\<open>runner.ErrInvalidRunMode\<close> is declared in the package
  \<^verbatim>\<open>runner\<close>, which is not among the sources; the spec calls it the "invalid run mode"
  error, and that is the text given to it here.
\<close>

definition ErrInvalidRunMode_text :: string where
  "ErrInvalidRunMode_text = ''invalid run mode''"

text \<open>The method \<^verbatim>\<open>Error()\<close>.\<close>

fun Error :: "error \<Rightarrow> string" where
  "Error ErrInvalidRunMode = ErrInvalidRunMode_text"
| "Error ErrServerClosed = ''http: Server closed''"
| "Error (ErrorString s) = s"
| "Error (WrapError e s) = s"

text \<open>\<^verbatim>\<open>errors.Unwrap\<close> and \<^verbatim>\<open>errors.Is\<close>.\<close>

fun Unwrap :: "error \<Rightarrow> error option" where
  "Unwrap (WrapError e s) = Some e"
| "Unwrap _ = None"

fun errors_Is :: "error \<Rightarrow> error \<Rightarrow> bool" where
  "errors_Is (WrapError e s) target = (WrapError e s = target \<or> errors_Is e target)"
| "errors_Is e target = (e = target)"

section \<open>The job-creation request and its validation\<close>

record CreateJobRequest =
  Query :: string
  Language :: string
  MaxDepth :: int
  ExtractEmail :: bool
  GeoCoords :: string
  Zoom :: int

record CreateJobResponse =
  JobID :: string
  Status :: string
  Message :: string
  RequestID :: string

definition validate :: "CreateJobRequest \<Rightarrow> error option" where
  "validate r =
     (let errors = [];
          errors = (if TrimSpace (Query r) = '''' then errors @ [''query is required''] else errors);
          errors = (if TrimSpace (Language r) = '''' then errors @ [''language is required''] else errors);
          errors = (if MaxDepth r < 0 \<or> MaxDepth r > 10
                    then errors @ [''max_depth must be between 0 and 10''] else errors);
          errors = (if Zoom r < 0 \<or> Zoom r > 21
                    then errors @ [''zoom must be between 0 and 21''] else errors)
      in if length errors > 0
         then Some (ErrorString (''validation failed: '' @ Join errors '', ''))
         else None)"

section \<open>The HTTP response writer and JSON encoding\<close>

text \<open>
  What \<^verbatim>\<open>json.Marshal\<close> makes of a value is kept as the JSON document itself: an object
  is the list of its members in the order they are emitted. Only strings and objects occur.
\<close>

datatype json =
    JSON_String string
  | JSON_Object "(string \<times> json) list"

text \<open>
  \<^verbatim>\<open>http.ResponseWriter\<close>: the header map, the status code once \<^verbatim>\<open>WriteHeader\<close> has fixed
  it, and the documents written to the body, in order. As in \<^verbatim>\<open>net/http\<close>, only the first
  \<^verbatim>\<open>WriteHeader\<close> counts, and \<^verbatim>\<open>Write\<close> fixes status 200 when none was fixed before.
\<close>

record ResponseWriter =
  Header :: "string \<rightharpoonup> string"
  StatusCode :: "nat option"
  Body :: "json list"

definition NewResponseWriter :: ResponseWriter where
  "NewResponseWriter = \<lparr>Header = Map.empty, StatusCode = None, Body = []\<rparr>"

definition Header_Set :: "string \<Rightarrow> string \<Rightarrow> ResponseWriter \<Rightarrow> ResponseWriter" where
  "Header_Set k v w = w\<lparr>Header := (Header w)(k \<mapsto> v)\<rparr>"

definition WriteHeader :: "nat \<Rightarrow> ResponseWriter \<Rightarrow> ResponseWriter" where
  "WriteHeader code w = (if StatusCode w = None then w\<lparr>StatusCode := Some code\<rparr> else w)"

definition Write :: "json \<Rightarrow> ResponseWriter \<Rightarrow> ResponseWriter" where
  "Write response w = (let w' = WriteHeader 200 w in w'\<lparr>Body := Body w' @ [response]\<rparr>)"

definition StatusCreated :: nat where "StatusCreated = 201"
definition StatusBadRequest :: nat where "StatusBadRequest = 400"
definition StatusMethodNotAllowed :: nat where "StatusMethodNotAllowed = 405"
definition StatusInternalServerError :: nat where "StatusInternalServerError = 500"
definition MethodPost :: string where "MethodPost = ''POST''"

text \<open>
  \<^verbatim>\<open>json.Marshal\<close> on a \<^verbatim>\<open>CreateJobResponse\<close>, by the struct tags: \<^verbatim>\<open>job_id\<close>, \<^verbatim>\<open>status\<close>
  and \<^verbatim>\<open>request_id\<close> are always emitted, \<^verbatim>\<open>message\<close> has \<^verbatim>\<open>omitempty\<close> and is left out when
  it is the empty string. Encoding a struct of strings never fails.
\<close>

definition Marshal_CreateJobResponse :: "CreateJobResponse \<Rightarrow> error + json" where
  "Marshal_CreateJobResponse p =
     Inr (JSON_Object
       ([(''job_id'', JSON_String (JobID p)), (''status'', JSON_String (Status p))]
        @ (if Message p = '''' then [] else [(''message'', JSON_String (Message p))])
        @ [(''request_id'', JSON_String (RequestID p))]))"

section \<open>The job handler\<close>

text \<open>
  Modelled from the spec: \<^verbatim>\<open>gmaps.NewGmapJob\<close> is not among the sources. By section 3 of
  the spec a Job holds the identifier, the query, the language code, the maximum depth, the
  extract-email flag, the coordinates and the zoom level; the constructor takes them in the
  order of the call in \<^verbatim>\<open>CreateJob\<close>.
\<close>

record Job =
  ID :: string
  LangCode :: string
  JobQuery :: string
  JobMaxDepth :: int
  JobExtractEmail :: bool
  GeoCoordinates :: string
  JobZoom :: int

definition NewGmapJob :: "string \<Rightarrow> string \<Rightarrow> string \<Rightarrow> int \<Rightarrow> bool \<Rightarrow> string \<Rightarrow> int \<Rightarrow> Job" where
  "NewGmapJob jid langCode query maxDepth extractEmail geoCoordinates zoom =
     \<lparr>ID = jid, LangCode = langCode, JobQuery = query, JobMaxDepth = maxDepth,
      JobExtractEmail = extractEmail, GeoCoordinates = geoCoordinates, JobZoom = zoom\<rparr>"

text \<open>
  A \<^verbatim>\<open>zap\<close> logger is the list of fields that \<^verbatim>\<open>With\<close> has attached to it; a log entry is
  the level, the message and the fields (those of the logger, then those of the call).
\<close>

datatype level = InfoLevel | ErrorLevel

datatype log_entry = Log level string "(string \<times> string) list"

type_synonym Logger = "(string \<times> string) list"

definition zap_String :: "string \<Rightarrow> string \<Rightarrow> string \<times> string" where
  "zap_String k v = (k, v)"

definition zap_Error :: "error \<Rightarrow> string \<times> string" where
  "zap_Error err = (''error'', Error err)"

text \<open>
  What the handler works on besides its arguments: the identifier source (\<open>uuid_source n\<close>
  is the string of the \<open>n\<close>-th identifier that \<^verbatim>\<open>uuid.New()\<close> hands out in this process), the
  number of identifiers handed out so far, the log, the store behind the provider, and the
  jobs that were passed to \<^verbatim>\<open>Push\<close>, in order.
\<close>

record 'q World =
  uuid_source :: "nat \<Rightarrow> string"
  uuid_calls :: nat
  logs :: "log_entry list"
  queue :: 'q
  pushed :: "Job list"

text \<open>
  \<^verbatim>\<open>gmaps.Provider\<close> is an interface with the one method \<^verbatim>\<open>Push\<close>: from the store and the
  job to the error, if any, and the store afterwards.
\<close>

type_synonym 'q Provider = "'q \<Rightarrow> Job \<Rightarrow> error option \<times> 'q"

record 'q JobHandler =
  provider :: "'q Provider"
  logger :: Logger

text \<open>
  A request as the handler reads it: the method, and the body given by what
  \<^verbatim>\<open>json.NewDecoder(r.Body).Decode(&req)\<close> makes of it, an error or the decoded request
  (a field absent from the body has Go's zero value).
\<close>

record Request =
  Method :: string
  Decoded :: "error + CreateJobRequest"

definition NewJobHandler :: "'q Provider \<Rightarrow> Logger \<Rightarrow> 'q JobHandler" where
  "NewJobHandler p l = \<lparr>provider = p, logger = l\<rparr>"

definition uuid_New :: "'q World \<Rightarrow> string \<times> 'q World" where
  "uuid_New \<sigma> = (uuid_source \<sigma> (uuid_calls \<sigma>), \<sigma>\<lparr>uuid_calls := Suc (uuid_calls \<sigma>)\<rparr>)"

definition logger_With :: "(string \<times> string) list \<Rightarrow> Logger \<Rightarrow> Logger" where
  "logger_With fs l = l @ fs"

definition log_Error :: "Logger \<Rightarrow> string \<Rightarrow> (string \<times> string) list \<Rightarrow> 'q World \<Rightarrow> 'q World" where
  "log_Error l msg fs \<sigma> = \<sigma>\<lparr>logs := logs \<sigma> @ [Log ErrorLevel msg (l @ fs)]\<rparr>"

definition log_Info :: "Logger \<Rightarrow> string \<Rightarrow> (string \<times> string) list \<Rightarrow> 'q World \<Rightarrow> 'q World" where
  "log_Info l msg fs \<sigma> = \<sigma>\<lparr>logs := logs \<sigma> @ [Log InfoLevel msg (l @ fs)]\<rparr>"

definition Push :: "'q JobHandler \<Rightarrow> Job \<Rightarrow> 'q World \<Rightarrow> error option \<times> 'q World" where
  "Push h job \<sigma> =
     (let (err, q) = provider h (queue \<sigma>) job
      in (err, \<sigma>\<lparr>queue := q, pushed := pushed \<sigma> @ [job]\<rparr>))"

text \<open>
  \<^verbatim>\<open>respondWithJSON\<close> takes any payload (\<^verbatim>\<open>interface{}\<close>); \<open>json_Marshal\<close> is
  \<^verbatim>\<open>json.Marshal\<close> at the payload's type.
\<close>

definition respondWithJSON ::
  "('p \<Rightarrow> error + json) \<Rightarrow> 'q JobHandler \<Rightarrow> ResponseWriter \<Rightarrow> nat \<Rightarrow> 'p \<Rightarrow> 'q World
    \<Rightarrow> ResponseWriter \<times> 'q World" where
  "respondWithJSON json_Marshal h w code payload \<sigma> =
     (case json_Marshal payload of
        Inl err \<Rightarrow>
          (WriteHeader StatusInternalServerError w,
           log_Error (logger h) ''failed to marshal response'' [zap_Error err] \<sigma>)
      | Inr response \<Rightarrow>
          (Write response (WriteHeader code (Header_Set ''Content-Type'' ''application/json'' w)),
           \<sigma>))"

definition respondWithError ::
  "'q JobHandler \<Rightarrow> ResponseWriter \<Rightarrow> nat \<Rightarrow> string \<Rightarrow> string \<Rightarrow> 'q World
    \<Rightarrow> ResponseWriter \<times> 'q World" where
  "respondWithError h w code message requestID \<sigma> =
     respondWithJSON Marshal_CreateJobResponse h w code
       \<lparr>JobID = '''', Status = ''error'', Message = message, RequestID = requestID\<rparr> \<sigma>"

definition CreateJob ::
  "'q JobHandler \<Rightarrow> ResponseWriter \<Rightarrow> Request \<Rightarrow> 'q World \<Rightarrow> ResponseWriter \<times> 'q World" where
  "CreateJob h w r \<sigma>0 =
     (let (requestID, \<sigma>1) = uuid_New \<sigma>0;
          reqLogger = logger_With [zap_String ''request_id'' requestID,
                                   zap_String ''handler'' ''CreateJob''] (logger h)
      in if Method r \<noteq> MethodPost
         then respondWithError h w StatusMethodNotAllowed ''Method not allowed'' requestID \<sigma>1
         else
           (case Decoded r of
              Inl err \<Rightarrow>
                respondWithError h w StatusBadRequest ''Invalid request body'' requestID
                  (log_Error reqLogger ''failed to decode request body'' [zap_Error err] \<sigma>1)
            | Inr req \<Rightarrow>
                (case validate req of
                   Some err \<Rightarrow>
                     respondWithError h w StatusBadRequest (Error err) requestID
                       (log_Error reqLogger ''request validation failed'' [zap_Error err] \<sigma>1)
                 | None \<Rightarrow>
                     (let (jobID, \<sigma>2) = uuid_New \<sigma>1;
                          job = NewGmapJob jobID (Language req) (Query req) (MaxDepth req)
                                  (ExtractEmail req) (GeoCoords req) (Zoom req);
                          (perr, \<sigma>3) = Push h job \<sigma>2
                      in (case perr of
                            Some err \<Rightarrow>
                              respondWithError h w StatusInternalServerError
                                ''Failed to create job'' requestID
                                (log_Error reqLogger ''failed to push job''
                                   [zap_Error err, zap_String ''job_id'' jobID] \<sigma>3)
                          | None \<Rightarrow>
                              respondWithJSON Marshal_CreateJobResponse h w StatusCreated
                                \<lparr>JobID = jobID, Status = ''created'',
                                 Message = ''Job created successfully'', RequestID = requestID\<rparr>
                                (log_Info reqLogger ''job created successfully''
                                   [zap_String ''job_id'' jobID,
                                    zap_String ''query'' (Query req)] \<sigma>3))))))"

text \<open>
  The validation rules in the words of the spec (section 4.3), to compare \<open>validate\<close>
  with: four rules, checked in this order, each with its message.
\<close>

datatype rule = QueryRule | LanguageRule | MaxDepthRule | ZoomRule

fun violated :: "CreateJobRequest \<Rightarrow> rule \<Rightarrow> bool" where
  "violated r QueryRule \<longleftrightarrow> TrimSpace (Query r) = ''''"
| "violated r LanguageRule \<longleftrightarrow> TrimSpace (Language r) = ''''"
| "violated r MaxDepthRule \<longleftrightarrow> \<not> (0 \<le> MaxDepth r \<and> MaxDepth r \<le> 10)"
| "violated r ZoomRule \<longleftrightarrow> \<not> (0 \<le> Zoom r \<and> Zoom r \<le> 21)"

fun rule_message :: "rule \<Rightarrow> string" where
  "rule_message QueryRule = ''query is required''"
| "rule_message LanguageRule = ''language is required''"
| "rule_message MaxDepthRule = ''max_depth must be between 0 and 10''"
| "rule_message ZoomRule = ''zoom must be between 0 and 21''"

definition spec_violations :: "CreateJobRequest \<Rightarrow> rule list" where
  "spec_violations r = filter (violated r) [QueryRule, LanguageRule, MaxDepthRule, ZoomRule]"

definition spec_validation_message :: "CreateJobRequest \<Rightarrow> string" where
  "spec_validation_message r =
     ''validation failed: '' @ Join (map rule_message (spec_violations r)) '', ''"

section \<open>Reading a response\<close>

text \<open>The names of the members of a JSON object, in order.\<close>

fun member_names :: "json \<Rightarrow> string list" where
  "member_names (JSON_Object ms) = map fst ms"
| "member_names (JSON_String s) = []"

text \<open>Every string of a JSON document: the member names and the string values.\<close>

fun json_strings :: "json \<Rightarrow> string list"
  and members_strings :: "(string \<times> json) list \<Rightarrow> string list" where
  "json_strings (JSON_String s) = [s]"
| "json_strings (JSON_Object ms) = members_strings ms"
| "members_strings [] = []"
| "members_strings ((k, v) # ms) = k # json_strings v @ members_strings ms"

text \<open>\<^verbatim>\<open>strings.Contains\<close>.\<close>

fun Contains :: "string \<Rightarrow> string \<Rightarrow> bool" where
  "Contains [] sub \<longleftrightarrow> sub = []"
| "Contains (c # cs) sub \<longleftrightarrow> HasPrefix (c # cs) sub \<or> Contains cs sub"

text \<open>An identifier appears in a response when some string of the body contains it.\<close>

definition appears_in_body :: "string \<Rightarrow> ResponseWriter \<Rightarrow> bool" where
  "appears_in_body ident w \<longleftrightarrow>
     list_ex (\<lambda>doc. list_ex (\<lambda>s. Contains s ident) (json_strings doc)) (Body w)"

text \<open>
  The form of the strings that \<^verbatim>\<open>uuid.New().String()\<close> returns: 36 characters, lower-case
  hexadecimal digits in five groups of 8, 4, 4, 4 and 12 separated by hyphens.
\<close>

definition is_hex_digit :: "char \<Rightarrow> bool" where
  "is_hex_digit c \<longleftrightarrow> c \<in> set ''0123456789abcdef''"

definition is_uuid_string :: "string \<Rightarrow> bool" where
  "is_uuid_string s \<longleftrightarrow>
     list_all2 (\<lambda>p c. if p = CHR ''-'' then c = CHR ''-'' else is_hex_digit c)
       ''xxxxxxxx-xxxx-xxxx-xxxx-xxxxxxxxxxxx'' s"

text \<open>The writer after one successful \<^verbatim>\<open>respondWithJSON\<close> on a fresh writer.\<close>

definition sent :: "nat \<Rightarrow> json \<Rightarrow> ResponseWriter" where
  "sent code doc =
     \<lparr>Header = [''Content-Type'' \<mapsto> ''application/json''], StatusCode = Some code, Body = [doc]\<rparr>"

text \<open>The two documents that the handler emits, and the identifiers of one call.\<close>

definition error_body :: "string \<Rightarrow> string \<Rightarrow> json" where
  "error_body message requestID =
     JSON_Object [(''job_id'', JSON_String ''''), (''status'', JSON_String ''error''),
                  (''message'', JSON_String message), (''request_id'', JSON_String requestID)]"

definition created_body :: "string \<Rightarrow> string \<Rightarrow> json" where
  "created_body jobID requestID =
     JSON_Object [(''job_id'', JSON_String jobID), (''status'', JSON_String ''created''),
                  (''message'', JSON_String ''Job created successfully''),
                  (''request_id'', JSON_String requestID)]"

definition request_id_of :: "'q World \<Rightarrow> string" where
  "request_id_of \<sigma> = uuid_source \<sigma> (uuid_calls \<sigma>)"

definition job_id_of :: "'q World \<Rightarrow> string" where
  "job_id_of \<sigma> = uuid_source \<sigma> (Suc (uuid_calls \<sigma>))"

definition job_of :: "'q World \<Rightarrow> CreateJobRequest \<Rightarrow> Job" where
  "job_of \<sigma> req =
     NewGmapJob (job_id_of \<sigma>) (Language req) (Query req) (MaxDepth req)
       (ExtractEmail req) (GeoCoords req) (Zoom req)"

text \<open>
  Concrete values to run the handler on: a provider over a list of jobs that accepts every
  job, one that refuses every job, a source of identifiers that differ in their last digit
  for sixteen calls, and the request of the example in section 8 of the spec.
\<close>

definition accepting_provider :: "Job list Provider" where
  "accepting_provider q job = (None, q @ [job])"

definition refusing_provider :: "Job list Provider" where
  "refusing_provider q job = (Some (ErrorString ''connection refused''), q)"

definition example_uuids :: "nat \<Rightarrow> string" where
  "example_uuids n = ''3f2b8c1e-5d4a-4e6f-9a7b-0c1d2e3f4a5'' @ [''0123456789abcdef'' ! (n mod 16)]"

definition example_world :: "Job list World" where
  "example_world = \<lparr>uuid_source = example_uuids, uuid_calls = 0, logs = [], queue = [], pushed = []\<rparr>"

definition example_invalid :: CreateJobRequest where
  "example_invalid =
     \<lparr>Query = '''', Language = ''en'', MaxDepth = 3, ExtractEmail = False, GeoCoords = '''', Zoom = 30\<rparr>"

definition example_valid :: CreateJobRequest where
  "example_valid =
     \<lparr>Query = ''coffee shops'', Language = ''en'', MaxDepth = 3, ExtractEmail = True,
      GeoCoords = ''40.7,-74.0'', Zoom = 15\<rparr>"

definition post :: "CreateJobRequest \<Rightarrow> Request" where
  "post req = \<lparr>Method = MethodPost, Decoded = Inr req\<rparr>"

text \<open>
  \<^verbatim>\<open>json.Marshal\<close> at a type it cannot encode (a channel, of which \<open>()\<close> stands for a
  value): it returns the error of the unsupported type.
\<close>

definition Marshal_chan :: "unit \<Rightarrow> error + json" where
  "Marshal_chan c = Inl (ErrorString ''json: unsupported type: chan int'')"

section \<open>Runners and the factory\<close>

text \<open>
  \<^verbatim>\<open>runner.Config\<close>, as far as \<^verbatim>\<open>main\<close> reads it. The run-mode constants and the
  constructors of the runner packages are declared outside the sources at hand, so the
  factory takes them as parameters: the seven constants, and one constructor per package
  function that the factory calls, each returning a runner or an error as its Go signature
  \<^verbatim>\<open>(runner.Runner, error)\<close> says. The type \<open>'r\<close> stands for the interface
  \<^verbatim>\<open>runner.Runner\<close>.
\<close>

record Config =
  RunMode :: int
  Dsn :: string

record RunModes =
  RunModeFile :: int
  RunModeDatabase :: int
  RunModeDatabaseProduce :: int
  RunModeInstallPlaywright :: int
  RunModeWeb :: int
  RunModeAwsLambda :: int
  RunModeAwsLambdaInvoker :: int

record 'r Constructors =
  filerunner_New :: "Config \<Rightarrow> error + 'r"
  databaserunner_New :: "Config \<Rightarrow> error + 'r"
  installplaywright_New :: "Config \<Rightarrow> error + 'r"
  webrunner_New :: "Config \<Rightarrow> error + 'r"
  lambdaaws_New :: "Config \<Rightarrow> error + 'r"
  lambdaaws_NewInvoker :: "Config \<Rightarrow> error + 'r"

text \<open>The recognized run modes, in the order of the \<^verbatim>\<open>switch\<close>.\<close>

definition recognized :: "RunModes \<Rightarrow> int list" where
  "recognized K =
     [RunModeFile K, RunModeDatabase K, RunModeDatabaseProduce K, RunModeInstallPlaywright K,
      RunModeWeb K, RunModeAwsLambda K, RunModeAwsLambdaInvoker K]"

text \<open>\<^verbatim>\<open>fmt.Errorf("%w: %d", err, n)\<close>.\<close>

definition Errorf_w_d :: "error \<Rightarrow> int \<Rightarrow> error" where
  "Errorf_w_d e n = WrapError e (Error e @ '': '' @ format_d n)"

definition runnerFactory :: "RunModes \<Rightarrow> 'r Constructors \<Rightarrow> Config \<Rightarrow> error + 'r" where
  "runnerFactory K N cfg =
     (if RunMode cfg = RunModeFile K then filerunner_New N cfg
      else if RunMode cfg = RunModeDatabase K \<or> RunMode cfg = RunModeDatabaseProduce K
        then databaserunner_New N cfg
      else if RunMode cfg = RunModeInstallPlaywright K then installplaywright_New N cfg
      else if RunMode cfg = RunModeWeb K then webrunner_New N cfg
      else if RunMode cfg = RunModeAwsLambda K then lambdaaws_New N cfg
      else if RunMode cfg = RunModeAwsLambdaInvoker K then lambdaaws_NewInvoker N cfg
      else Inl (Errorf_w_d ErrInvalidRunMode (RunMode cfg)))"

section \<open>The process: main, the signal watcher and the server task\<close>

text \<open>
  \<^verbatim>\<open>main\<close> starts two goroutines and all three share the cancellation of the root context.
  Each task is a small program over line numbers of the source; one step of a task runs one
  statement. A blocking call takes one step to be called and stays at a waiting point until
  its outcome is there. An execution of the process is a schedule: the list of the tasks
  that take the steps, in order.
\<close>

datatype task = MainTask | SignalTask | ServerTask

datatype 'a outcome = Pending | Returned 'a

text \<open>What the process does that can be seen from outside, each with the task that did it.\<close>

datatype 'r event =
    WithCancel | Banner | MakeChan | SignalNotify | Go task | ParseConfig | NewProduction
  | Defer string | SqlOpen string string | LogFatal string | NewProvider | NewHandler
  | Factory | Cancel | StderrWrite string | TelemetryClose
  | RunCall 'r | RunReturn 'r "error option" | CloseCall 'r | Exit int | Panic
  | Receive | LogPrintln string
  | ServerNew | LogInfo string | StartCall | StartReturn "error option" | LogPrintf string
  | ShutdownCall

text \<open>
  The outside world of one run: the configuration that \<^verbatim>\<open>ParseConfig\<close> returns, the result
  of \<^verbatim>\<open>sql.Open\<close>, the constants and constructors of the factory, the methods of the
  runner, the outcome of \<^verbatim>\<open>ListenAndServe\<close>, and whether a termination signal arrives.
  \<open>Run E r c\<close> is what the call \<^verbatim>\<open>Run(ctx)\<close> on \<open>r\<close> has come to when the context is
  cancelled (\<open>c\<close>) or not: still running, or returned with its error. \<^verbatim>\<open>Close\<close> returns,
  and \<^verbatim>\<open>main\<close> drops what it returns.
\<close>

record 'r Env =
  cfg :: Config
  sql_Open :: "string \<Rightarrow> string \<Rightarrow> error option"
  modes :: RunModes
  constructors :: "'r Constructors"
  Run :: "'r \<Rightarrow> bool \<Rightarrow> error option outcome"
  Close :: "'r \<Rightarrow> error option"
  ListenAndServe :: "error option outcome"
  signal :: bool

datatype main_pc =
    L26 | L28 | L30 | L31 | L33 | L41 | L44 | L45 | L48 | L50 | L52 | L55 | L58 | L61 | L70
  | L72 | L73 | L74 | L75 | L78 | L78_wait | L79 | L80 | L81 | L82 | L83
  | L86 | L87 | L88 | L89

datatype signal_pc = L34 | L36 | L38 | signal_done

datatype server_pc = L62 | L63 | L63_wait | L64 | L65 | server_done

text \<open>
  The state of the process: where each task stands (a goroutine that was not started yet
  stands nowhere), whether the root context is cancelled, the variables \<^verbatim>\<open>err\<close> and
  \<^verbatim>\<open>runnerInstance\<close> of \<^verbatim>\<open>main\<close>, the \<^verbatim>\<open>err\<close> of the server goroutine, the exit status
  once the process has exited, and the events so far.
\<close>

record 'r Process =
  main_pc :: main_pc
  signal_pc :: "signal_pc option"
  server_pc :: "server_pc option"
  cancelled :: bool
  main_err :: "error option"
  runnerInstance :: "'r option"
  server_err :: "error option"
  exit_status :: "int option"
  trace :: "(task \<times> 'r event) list"

definition init :: "'r Process" where
  "init = \<lparr>main_pc = L26, signal_pc = None, server_pc = None, cancelled = False, main_err = None,
            runnerInstance = None, server_err = None, exit_status = None, trace = []\<rparr>"

definition emit :: "task \<Rightarrow> 'r event \<Rightarrow> 'r Process \<Rightarrow> 'r Process" where
  "emit t e s = s\<lparr>trace := trace s @ [(t, e)]\<rparr>"

text \<open>\<^verbatim>\<open>cancel()\<close>, \<^verbatim>\<open>os.Exit\<close>, and a run-time panic (exit status 2).\<close>

definition cancel :: "task \<Rightarrow> 'r Process \<Rightarrow> 'r Process" where
  "cancel t s = emit t Cancel (s\<lparr>cancelled := True\<rparr>)"

definition os_Exit :: "int \<Rightarrow> 'r Process \<Rightarrow> 'r Process" where
  "os_Exit code s = emit MainTask (Exit code) (s\<lparr>exit_status := Some code\<rparr>)"

definition panic :: "task \<Rightarrow> 'r Process \<Rightarrow> 'r Process" where
  "panic t s = emit t Panic (s\<lparr>exit_status := Some 2\<rparr>)"

text \<open>
  \<^verbatim>\<open>Server.Shutdown\<close> of \<^verbatim>\<open>web/server/server.go\<close>, when task \<open>t\<close> calls it: it logs and
  shuts the HTTP server down.
\<close>

definition Server_Shutdown :: "task \<Rightarrow> 'r Process \<Rightarrow> 'r Process" where
  "Server_Shutdown t s = emit t (LogInfo ''shutting down server'') (emit t ShutdownCall s)"

text \<open>
  \<^verbatim>\<open>Server.Start\<close>, up to the point where it blocks in \<^verbatim>\<open>ListenAndServe\<close>: it logs that
  the server is running.
\<close>

definition Server_Start :: "task \<Rightarrow> 'r Process \<Rightarrow> 'r Process" where
  "Server_Start t s = emit t (LogInfo ''API server is running'') (emit t StartCall s)"

text \<open>
  The statements of \<^verbatim>\<open>main\<close>. The deferred calls of lines 45 and 52 are registered and
  never run, since every path ends in \<^verbatim>\<open>os.Exit\<close> (or \<^verbatim>\<open>log.Fatal\<close>, which exits with 1).
\<close>

fun main_step :: "'r Env \<Rightarrow> main_pc \<Rightarrow> 'r Process \<Rightarrow> 'r Process" where
  "main_step E L26 s = emit MainTask WithCancel (s\<lparr>main_pc := L28\<rparr>)"
| "main_step E L28 s = emit MainTask Banner (s\<lparr>main_pc := L30\<rparr>)"
| "main_step E L30 s = emit MainTask MakeChan (s\<lparr>main_pc := L31\<rparr>)"
| "main_step E L31 s = emit MainTask SignalNotify (s\<lparr>main_pc := L33\<rparr>)"
| "main_step E L33 s = emit MainTask (Go SignalTask) (s\<lparr>main_pc := L41, signal_pc := Some L34\<rparr>)"
| "main_step E L41 s = emit MainTask ParseConfig (s\<lparr>main_pc := L44\<rparr>)"
| "main_step E L44 s = emit MainTask NewProduction (s\<lparr>main_pc := L45\<rparr>)"
| "main_step E L45 s = emit MainTask (Defer ''logger.Sync'') (s\<lparr>main_pc := L48\<rparr>)"
| "main_step E L48 s =
     (let e = sql_Open E ''pgx'' (Dsn (cfg E))
      in emit MainTask (SqlOpen ''pgx'' (Dsn (cfg E)))
           (s\<lparr>main_err := e, main_pc := (if e \<noteq> None then L50 else L52)\<rparr>))"
| "main_step E L50 s =
     (case main_err s of
        None \<Rightarrow> panic MainTask s
      | Some e \<Rightarrow>
          os_Exit 1 (emit MainTask (LogFatal (''failed to connect to database:'' @ Error e)) s))"
| "main_step E L52 s = emit MainTask (Defer ''db.Close'') (s\<lparr>main_pc := L55\<rparr>)"
| "main_step E L55 s = emit MainTask NewProvider (s\<lparr>main_pc := L58\<rparr>)"
| "main_step E L58 s = emit MainTask NewHandler (s\<lparr>main_pc := L61\<rparr>)"
| "main_step E L61 s = emit MainTask (Go ServerTask) (s\<lparr>main_pc := L70, server_pc := Some L62\<rparr>)"
| "main_step E L70 s =
     (case runnerFactory (modes E) (constructors E) (cfg E) of
        Inl e \<Rightarrow> emit MainTask Factory (s\<lparr>runnerInstance := None, main_err := Some e, main_pc := L72\<rparr>)
      | Inr r \<Rightarrow> emit MainTask Factory (s\<lparr>runnerInstance := Some r, main_err := None, main_pc := L78\<rparr>))"
| "main_step E L72 s = cancel MainTask (s\<lparr>main_pc := L73\<rparr>)"
| "main_step E L73 s =
     (case main_err s of
        None \<Rightarrow> panic MainTask s
      | Some e \<Rightarrow> emit MainTask (StderrWrite (Error e @ [CHR 0x0A])) (s\<lparr>main_pc := L74\<rparr>))"
| "main_step E L74 s = emit MainTask TelemetryClose (s\<lparr>main_pc := L75\<rparr>)"
| "main_step E L75 s = os_Exit 1 s"
| "main_step E L78 s =
     (case runnerInstance s of
        None \<Rightarrow> panic MainTask s
      | Some r \<Rightarrow> emit MainTask (RunCall r) (s\<lparr>main_pc := L78_wait\<rparr>))"
| "main_step E L78_wait s =
     (case runnerInstance s of
        None \<Rightarrow> panic MainTask s
      | Some r \<Rightarrow>
          (case Run E r (cancelled s) of
             Pending \<Rightarrow> s
           | Returned e \<Rightarrow>
               emit MainTask (RunReturn r e)
                 (s\<lparr>main_err := e, main_pc := (if e \<noteq> None then L79 else L86)\<rparr>)))"
| "main_step E L79 s =
     (case main_err s of
        None \<Rightarrow> panic MainTask s
      | Some e \<Rightarrow> emit MainTask (StderrWrite (Error e @ [CHR 0x0A])) (s\<lparr>main_pc := L80\<rparr>))"
| "main_step E L80 s =
     (case runnerInstance s of
        None \<Rightarrow> panic MainTask s
      | Some r \<Rightarrow> emit MainTask (CloseCall r) (s\<lparr>main_pc := L81\<rparr>))"
| "main_step E L81 s = emit MainTask TelemetryClose (s\<lparr>main_pc := L82\<rparr>)"
| "main_step E L82 s = cancel MainTask (s\<lparr>main_pc := L83\<rparr>)"
| "main_step E L83 s = os_Exit 1 s"
| "main_step E L86 s =
     (case runnerInstance s of
        None \<Rightarrow> panic MainTask s
      | Some r \<Rightarrow> emit MainTask (CloseCall r) (s\<lparr>main_pc := L87\<rparr>))"
| "main_step E L87 s = emit MainTask TelemetryClose (s\<lparr>main_pc := L88\<rparr>)"
| "main_step E L88 s = cancel MainTask (s\<lparr>main_pc := L89\<rparr>)"
| "main_step E L89 s = os_Exit 0 s"

text \<open>The goroutine of line 33: wait for a signal, log, cancel.\<close>

fun signal_step :: "'r Env \<Rightarrow> signal_pc \<Rightarrow> 'r Process \<Rightarrow> 'r Process" where
  "signal_step E L34 s =
     (if signal E then emit SignalTask Receive (s\<lparr>signal_pc := Some L36\<rparr>) else s)"
| "signal_step E L36 s =
     emit SignalTask (LogPrintln ''Received signal, shutting down...'')
       (s\<lparr>signal_pc := Some L38\<rparr>)"
| "signal_step E L38 s = cancel SignalTask (s\<lparr>signal_pc := Some signal_done\<rparr>)"
| "signal_step E signal_done s = s"

text \<open>
  The goroutine of line 61: build the server, start it, and when \<^verbatim>\<open>Start\<close> returns an
  error that is not \<^verbatim>\<open>http.ErrServerClosed\<close>, log it and cancel the root context.
  \<^verbatim>\<open>Start\<close> returns what \<^verbatim>\<open>ListenAndServe\<close> returns.
\<close>

fun server_step :: "'r Env \<Rightarrow> server_pc \<Rightarrow> 'r Process \<Rightarrow> 'r Process" where
  "server_step E L62 s = emit ServerTask ServerNew (s\<lparr>server_pc := Some L63\<rparr>)"
| "server_step E L63 s = Server_Start ServerTask (s\<lparr>server_pc := Some L63_wait\<rparr>)"
| "server_step E L63_wait s =
     (case ListenAndServe E of
        Pending \<Rightarrow> s
      | Returned e \<Rightarrow>
          emit ServerTask (StartReturn e)
            (s\<lparr>server_err := e,
               server_pc := Some (if e \<noteq> None \<and> e \<noteq> Some ErrServerClosed then L64
                                  else server_done)\<rparr>))"
| "server_step E L64 s =
     (case server_err s of
        None \<Rightarrow> panic ServerTask s
      | Some e \<Rightarrow>
          emit ServerTask (LogPrintf (''server error: '' @ Error e)) (s\<lparr>server_pc := Some L65\<rparr>))"
| "server_step E L65 s = cancel ServerTask (s\<lparr>server_pc := Some server_done\<rparr>)"
| "server_step E server_done s = s"

text \<open>One step of a task. Nothing moves once the process has exited.\<close>

definition step :: "'r Env \<Rightarrow> task \<Rightarrow> 'r Process \<Rightarrow> 'r Process" where
  "step E t s =
     (if exit_status s \<noteq> None then s
      else case t of
        MainTask \<Rightarrow> main_step E (main_pc s) s
      | SignalTask \<Rightarrow> (case signal_pc s of None \<Rightarrow> s | Some pc \<Rightarrow> signal_step E pc s)
      | ServerTask \<Rightarrow> (case server_pc s of None \<Rightarrow> s | Some pc \<Rightarrow> server_step E pc s))"

fun exec :: "'r Env \<Rightarrow> task list \<Rightarrow> 'r Process \<Rightarrow> 'r Process" where
  "exec E [] s = s"
| "exec E (t # ts) s = exec E ts (step E t s)"

text \<open>The events of one task, in order.\<close>

definition events_of :: "task \<Rightarrow> 'r Process \<Rightarrow> 'r event list" where
  "events_of t s = map snd (filter (\<lambda>te. fst te = t) (trace s))"


section \<open>What main has done when it stands at a line\<close>

text \<open>
  \<^verbatim>\<open>main\<close> has no loop, so the line it stands at, with the error and the runner it holds,
  fixes everything it did before. The events come in five stretches: lines 26 to 48, lines
  52 to 70, and the three ways on from the factory.
\<close>

definition startup :: "'r Env \<Rightarrow> 'r event list" where
  "startup E =
     [WithCancel, Banner, MakeChan, SignalNotify, Go SignalTask, ParseConfig, NewProduction,
      Defer ''logger.Sync'', SqlOpen ''pgx'' (Dsn (cfg E))]"

definition wiring :: "'r event list" where
  "wiring = [Defer ''db.Close'', NewProvider, NewHandler, Go ServerTask, Factory]"

definition on_factory_error :: "error option \<Rightarrow> 'r event list" where
  "on_factory_error eo =
     (case eo of None \<Rightarrow> []
      | Some e \<Rightarrow> [Cancel, StderrWrite (Error e @ [CHR 0x0A]), TelemetryClose])"

definition on_run_error :: "'r option \<Rightarrow> error option \<Rightarrow> 'r event list" where
  "on_run_error ro eo =
     (case (ro, eo) of
        (Some r, Some e) \<Rightarrow>
          [RunCall r, RunReturn r (Some e), StderrWrite (Error e @ [CHR 0x0A]), CloseCall r,
           TelemetryClose, Cancel]
      | _ \<Rightarrow> [])"

definition on_run_ok :: "'r option \<Rightarrow> 'r event list" where
  "on_run_ok ro =
     (case ro of None \<Rightarrow> []
      | Some r \<Rightarrow> [RunCall r, RunReturn r None, CloseCall r, TelemetryClose, Cancel])"

fun main_history :: "'r Env \<Rightarrow> main_pc \<Rightarrow> error option \<Rightarrow> 'r option \<Rightarrow> 'r event list" where
  "main_history E L26 eo ro = []"
| "main_history E L28 eo ro = take 1 (startup E)"
| "main_history E L30 eo ro = take 2 (startup E)"
| "main_history E L31 eo ro = take 3 (startup E)"
| "main_history E L33 eo ro = take 4 (startup E)"
| "main_history E L41 eo ro = take 5 (startup E)"
| "main_history E L44 eo ro = take 6 (startup E)"
| "main_history E L45 eo ro = take 7 (startup E)"
| "main_history E L48 eo ro = take 8 (startup E)"
| "main_history E L50 eo ro = startup E"
| "main_history E L52 eo ro = startup E"
| "main_history E L55 eo ro = startup E @ take 1 wiring"
| "main_history E L58 eo ro = startup E @ take 2 wiring"
| "main_history E L61 eo ro = startup E @ take 3 wiring"
| "main_history E L70 eo ro = startup E @ take 4 wiring"
| "main_history E L72 eo ro = startup E @ wiring"
| "main_history E L73 eo ro = startup E @ wiring @ take 1 (on_factory_error eo)"
| "main_history E L74 eo ro = startup E @ wiring @ take 2 (on_factory_error eo)"
| "main_history E L75 eo ro = startup E @ wiring @ on_factory_error eo"
| "main_history E L78 eo ro = startup E @ wiring"
| "main_history E L78_wait eo ro = startup E @ wiring @ take 1 (on_run_ok ro)"
| "main_history E L79 eo ro = startup E @ wiring @ take 2 (on_run_error ro eo)"
| "main_history E L80 eo ro = startup E @ wiring @ take 3 (on_run_error ro eo)"
| "main_history E L81 eo ro = startup E @ wiring @ take 4 (on_run_error ro eo)"
| "main_history E L82 eo ro = startup E @ wiring @ take 5 (on_run_error ro eo)"
| "main_history E L83 eo ro = startup E @ wiring @ on_run_error ro eo"
| "main_history E L86 eo ro = startup E @ wiring @ take 2 (on_run_ok ro)"
| "main_history E L87 eo ro = startup E @ wiring @ take 3 (on_run_ok ro)"
| "main_history E L88 eo ro = startup E @ wiring @ take 4 (on_run_ok ro)"
| "main_history E L89 eo ro = startup E @ wiring @ on_run_ok ro"

text \<open>The last events of a process that has exited.\<close>

definition final_events :: "'r Process \<Rightarrow> 'r event list" where
  "final_events s =
     (case exit_status s of
        None \<Rightarrow> []
      | Some c \<Rightarrow>
          (if main_pc s = L50
           then (case main_err s of None \<Rightarrow> []
                 | Some e \<Rightarrow> [LogFatal (''failed to connect to database:'' @ Error e)])
           else []) @ [Exit c])"

text \<open>
  What holds of \<^verbatim>\<open>main\<close>'s variables at each line, of the exit status, and of the
  goroutines having been started.
\<close>

definition main_data :: "'r Env \<Rightarrow> 'r Process \<Rightarrow> bool" where
  "main_data E s \<longleftrightarrow>
     (main_pc s = L50 \<longrightarrow>
        main_err s \<noteq> None \<and> main_err s = sql_Open E ''pgx'' (Dsn (cfg E)))
     \<and> (main_pc s \<in> {L72, L73, L74, L75} \<longrightarrow>
          (\<exists>e. main_err s = Some e \<and> runnerFactory (modes E) (constructors E) (cfg E) = Inl e))
     \<and> (main_pc s \<in> {L78, L78_wait, L79, L80, L81, L82, L83, L86, L87, L88, L89} \<longrightarrow>
          (\<exists>r. runnerInstance s = Some r
                \<and> runnerFactory (modes E) (constructors E) (cfg E) = Inr r))
     \<and> (main_pc s \<in> {L79, L80, L81, L82, L83, L86, L87, L88, L89} \<longrightarrow>
          (\<exists>r c. runnerInstance s = Some r \<and> Run E r c = Returned (main_err s)))
     \<and> (main_pc s \<in> {L79, L80, L81, L82, L83} \<longrightarrow> main_err s \<noteq> None)
     \<and> (main_pc s \<in> {L86, L87, L88, L89} \<longrightarrow> main_err s = None)
     \<and> (\<forall>c. exit_status s = Some c \<longrightarrow>
           (main_pc s, c) \<in> {(L50, 1), (L75, 1), (L83, 1), (L89, 0)})
     \<and> (signal_pc s = None \<longleftrightarrow> main_pc s \<in> {L26, L28, L30, L31, L33})
     \<and> (server_pc s = None \<longleftrightarrow>
          main_pc s \<in> {L26, L28, L30, L31, L33, L41, L44, L45, L48, L50, L52, L55, L58, L61})"

definition main_inv :: "'r Env \<Rightarrow> 'r Process \<Rightarrow> bool" where
  "main_inv E s \<longleftrightarrow>
     main_data E s
     \<and> events_of MainTask s =
         main_history E (main_pc s) (main_err s) (runnerInstance s) @ final_events s"


text \<open>
  The number of steps that \<^verbatim>\<open>main\<close> has left at most before it exits, when no call
  blocks, and the same for a state of the process.
\<close>

fun remaining :: "main_pc \<Rightarrow> nat" where
  "remaining L26 = 21" | "remaining L28 = 20" | "remaining L30 = 19" | "remaining L31 = 18"
| "remaining L33 = 17" | "remaining L41 = 16" | "remaining L44 = 15" | "remaining L45 = 14"
| "remaining L48 = 13" | "remaining L50 = 1" | "remaining L52 = 12" | "remaining L55 = 11"
| "remaining L58 = 10" | "remaining L61 = 9" | "remaining L70 = 8"
| "remaining L72 = 4" | "remaining L73 = 3" | "remaining L74 = 2" | "remaining L75 = 1"
| "remaining L78 = 7" | "remaining L78_wait = 6"
| "remaining L79 = 5" | "remaining L80 = 4" | "remaining L81 = 3" | "remaining L82 = 2"
| "remaining L83 = 1"
| "remaining L86 = 4" | "remaining L87 = 3" | "remaining L88 = 2" | "remaining L89 = 1"

definition todo :: "'r Process \<Rightarrow> nat" where
  "todo s = (if exit_status s \<noteq> None then 0 else remaining (main_pc s))"

text \<open>The result of the factory in a run, and the runner that a run resolves to.\<close>

definition resolved :: "'r Env \<Rightarrow> error + 'r" where
  "resolved E = runnerFactory (modes E) (constructors E) (cfg E)"

text \<open>The call of \<^verbatim>\<open>Run\<close> on the resolved runner returns, cancelled or not.\<close>

definition Run_returns :: "'r Env \<Rightarrow> bool" where
  "Run_returns E \<longleftrightarrow>
     (case resolved E of
        Inl e \<Rightarrow> True
      | Inr r \<Rightarrow> Run E r False \<noteq> Pending \<and> Run E r True \<noteq> Pending)"

text \<open>The same for the two goroutines.\<close>

definition serving :: "'r event list" where
  "serving = [ServerNew, StartCall, LogInfo ''API server is running'']"

definition on_server_error :: "error option \<Rightarrow> 'r event list" where
  "on_server_error eo =
     (case eo of None \<Rightarrow> []
      | Some e \<Rightarrow> [StartReturn (Some e), LogPrintf (''server error: '' @ Error e), Cancel])"

fun server_history :: "server_pc option \<Rightarrow> error option \<Rightarrow> 'r event list" where
  "server_history None eo = []"
| "server_history (Some L62) eo = []"
| "server_history (Some L63) eo = take 1 serving"
| "server_history (Some L63_wait) eo = serving"
| "server_history (Some L64) eo = serving @ take 1 (on_server_error eo)"
| "server_history (Some L65) eo = serving @ take 2 (on_server_error eo)"
| "server_history (Some server_done) eo =
     (if eo \<noteq> None \<and> eo \<noteq> Some ErrServerClosed then serving @ on_server_error eo
      else serving @ [StartReturn eo])"

definition server_inv :: "'r Env \<Rightarrow> 'r Process \<Rightarrow> bool" where
  "server_inv E s \<longleftrightarrow>
     events_of ServerTask s = server_history (server_pc s) (server_err s)
     \<and> (server_pc s \<in> {Some L64, Some L65} \<longrightarrow>
          server_err s \<noteq> None \<and> server_err s \<noteq> Some ErrServerClosed)
     \<and> (server_pc s \<in> {Some L64, Some L65, Some server_done} \<longrightarrow>
          ListenAndServe E = Returned (server_err s))
     \<and> (server_pc s = Some server_done \<and> server_err s \<noteq> None
          \<and> server_err s \<noteq> Some ErrServerClosed \<longrightarrow> cancelled s)"

definition on_signal :: "'r event list" where
  "on_signal = [Receive, LogPrintln ''Received signal, shutting down...'', Cancel]"

fun signal_history :: "signal_pc option \<Rightarrow> 'r event list" where
  "signal_history None = []"
| "signal_history (Some L34) = []"
| "signal_history (Some L36) = take 1 on_signal"
| "signal_history (Some L38) = take 2 on_signal"
| "signal_history (Some signal_done) = on_signal"

definition signal_inv :: "'r Env \<Rightarrow> 'r Process \<Rightarrow> bool" where
  "signal_inv E s \<longleftrightarrow>
     events_of SignalTask s = signal_history (signal_pc s)
     \<and> (signal_pc s \<in> {Some L36, Some L38, Some signal_done} \<longrightarrow> signal E)
     \<and> (signal_pc s = Some signal_done \<longrightarrow> cancelled s)"

text \<open>The root context is cancelled exactly when some task has called \<^verbatim>\<open>cancel()\<close>.\<close>

definition cancel_inv :: "'r Process \<Rightarrow> bool" where
  "cancel_inv s \<longleftrightarrow> (cancelled s \<longleftrightarrow> list_ex (\<lambda>te. snd te = Cancel) (trace s))"

definition inv :: "'r Env \<Rightarrow> 'r Process \<Rightarrow> bool" where
  "inv E s \<longleftrightarrow> main_inv E s \<and> server_inv E s \<and> signal_inv E s \<and> cancel_inv s"


text \<open>The calls on the runner among a list of events.\<close>

fun is_runner_call :: "'r event \<Rightarrow> bool" where
  "is_runner_call (RunCall r) = True"
| "is_runner_call (RunReturn r e) = True"
| "is_runner_call (CloseCall r) = True"
| "is_runner_call _ = False"

definition runner_calls :: "'r Process \<Rightarrow> (task \<times> 'r event) list" where
  "runner_calls s = filter (\<lambda>te. is_runner_call (snd te)) (trace s)"

text \<open>The number of calls on the runner that \<^verbatim>\<open>main\<close> has made when it stands at a line.\<close>

fun calls_at :: "main_pc \<Rightarrow> nat" where
  "calls_at L78_wait = 1"
| "calls_at L79 = 2" | "calls_at L80 = 2" | "calls_at L86 = 2"
| "calls_at L81 = 3" | "calls_at L82 = 3" | "calls_at L83 = 3"
| "calls_at L87 = 3" | "calls_at L88 = 3" | "calls_at L89 = 3"
| "calls_at _ = 0"

text \<open>
  \<^verbatim>\<open>main\<close> cannot be held up in \<^verbatim>\<open>Run\<close> any more: \<^verbatim>\<open>Run\<close> has returned already, or
  nothing was resolved, or the resolved runner returns once the context is cancelled and
  either the context is cancelled or the runner returns without that too.
\<close>

definition unblocked :: "'r Env \<Rightarrow> 'r Process \<Rightarrow> bool" where
  "unblocked E s \<longleftrightarrow>
     2 \<le> calls_at (main_pc s)
     \<or> (case resolved E of
          Inl e \<Rightarrow> True
        | Inr r \<Rightarrow> Run E r True \<noteq> Pending \<and> (cancelled s \<or> Run E r False \<noteq> Pending))"

text \<open>
  The number of steps that \<^verbatim>\<open>main\<close> has left at most until \<^verbatim>\<open>Close\<close> is called, from
  the point where it waits for \<^verbatim>\<open>Run\<close>.
\<close>

fun until_close :: "main_pc \<Rightarrow> nat" where
  "until_close L78_wait = 3"
| "until_close L79 = 2"
| "until_close L80 = 1"
| "until_close L86 = 1"
| "until_close _ = 0"

text \<open>
  The server goroutine is past a \<^verbatim>\<open>Start\<close> that returned an error other than
  \<^verbatim>\<open>http.ErrServerClosed\<close>; and the steps it has left from there.
\<close>

definition start_failed :: "'r Process \<Rightarrow> bool" where
  "start_failed s \<longleftrightarrow>
     server_pc s \<in> {Some L64, Some L65, Some server_done}
     \<and> server_err s \<noteq> None \<and> server_err s \<noteq> Some ErrServerClosed"

text \<open>
  \<^verbatim>\<open>main\<close> waits in \<^verbatim>\<open>Run\<close> with the context not cancelled while \<^verbatim>\<open>Start\<close> has failed;
  or the server goroutine has cancelled the context.
\<close>

definition blocked_or_cancelled :: "'r Process \<Rightarrow> bool" where
  "blocked_or_cancelled s \<longleftrightarrow>
     (main_pc s = L78_wait \<and> exit_status s = None \<and> \<not> cancelled s \<and> start_failed s)
     \<or> (cancelled s \<and> (ServerTask, Cancel) \<in> set (trace s))"

fun server_remaining :: "server_pc option \<Rightarrow> nat" where
  "server_remaining (Some L64) = 2"
| "server_remaining (Some L65) = 1"
| "server_remaining _ = 0"

section \<open>Concrete runs\<close>

text \<open>
  Concrete values to run the process on. The runners are the six that the packages build;
  the constants count from one in the order of the \<^verbatim>\<open>switch\<close>. In \<open>example_env\<close> every
  constructor succeeds, the database opens, the web runner serves until the context is
  cancelled and every other runner returns at once, the HTTP server keeps serving, and a
  signal arrives.
\<close>

datatype runner =
  FileRunner | DatabaseRunner | PlaywrightInstaller | WebRunner | LambdaRunner | LambdaInvoker

definition example_modes :: RunModes where
  "example_modes =
     \<lparr>RunModeFile = 1, RunModeDatabase = 2, RunModeDatabaseProduce = 3,
      RunModeInstallPlaywright = 4, RunModeWeb = 5, RunModeAwsLambda = 6,
      RunModeAwsLambdaInvoker = 7\<rparr>"

definition example_constructors :: "runner Constructors" where
  "example_constructors =
     \<lparr>filerunner_New = (\<lambda>c. Inr FileRunner),
      databaserunner_New = (\<lambda>c. Inr DatabaseRunner),
      installplaywright_New = (\<lambda>c. Inr PlaywrightInstaller),
      webrunner_New = (\<lambda>c. Inr WebRunner),
      lambdaaws_New = (\<lambda>c. Inr LambdaRunner),
      lambdaaws_NewInvoker = (\<lambda>c. Inr LambdaInvoker)\<rparr>"

definition example_env :: "runner Env" where
  "example_env =
     \<lparr>cfg = \<lparr>RunMode = 1, Dsn = ''postgres://localhost:5432/gmaps''\<rparr>,
      sql_Open = (\<lambda>driver dsn. None),
      modes = example_modes,
      constructors = example_constructors,
      Run = (\<lambda>r c. if r = WebRunner \<and> \<not> c then Pending else Returned None),
      Close = (\<lambda>r. None),
      ListenAndServe = Pending,
      signal = True\<rparr>"

text \<open>
  Variations: the input file of the file runner cannot be opened; the run mode is 42; the
  DSN is refused by the driver; the file runner fails in \<^verbatim>\<open>Run\<close>; the web runner is
  selected; the web runner is selected, the port of the HTTP server is taken and no signal
  arrives.
\<close>

definition no_input_env :: "runner Env" where
  "no_input_env =
     example_env\<lparr>constructors := example_constructors
       \<lparr>filerunner_New := (\<lambda>c. Inl (ErrorString ''open input.txt: no such file or directory''))\<rparr>\<rparr>"

definition bad_mode_env :: "runner Env" where
  "bad_mode_env = example_env\<lparr>cfg := \<lparr>RunMode = 42, Dsn = ''postgres://localhost:5432/gmaps''\<rparr>\<rparr>"

definition bad_dsn_env :: "runner Env" where
  "bad_dsn_env =
     example_env\<lparr>sql_Open := (\<lambda>driver dsn. Some (ErrorString ''cannot parse dsn''))\<rparr>"

definition run_fails_env :: "runner Env" where
  "run_fails_env = example_env\<lparr>Run := (\<lambda>r c. Returned (Some (ErrorString ''scrape failed'')))\<rparr>"

definition web_env :: "runner Env" where
  "web_env = example_env\<lparr>cfg := \<lparr>RunMode = 5, Dsn = ''postgres://localhost:5432/gmaps''\<rparr>\<rparr>"

definition port_taken_env :: "runner Env" where
  "port_taken_env =
     example_env\<lparr>cfg := \<lparr>RunMode = 5, Dsn = ''postgres://localhost:5432/gmaps''\<rparr>,
       ListenAndServe :=
         Returned (Some (ErrorString ''listen tcp :6060: bind: address already in use'')),
       signal := False\<rparr>"

text \<open>
  Runs of these: \<^verbatim>\<open>main\<close> alone for 21 steps in three of them; the web runner with the server
  serving and a signal arriving while \<^verbatim>\<open>Run\<close> is on; the taken port, up to the moment
  \<^verbatim>\<open>Start\<close> has returned its error, with \<^verbatim>\<open>main\<close> waiting in \<^verbatim>\<open>Run\<close>.
\<close>

definition clean_run :: "runner Process" where
  "clean_run = exec example_env (replicate 21 MainTask) init"

definition failed_run :: "runner Process" where
  "failed_run = exec run_fails_env (replicate 21 MainTask) init"

definition bad_mode_run :: "runner Process" where
  "bad_mode_run = exec bad_mode_env (replicate 21 MainTask) init"

definition signalled_schedule :: "task list" where
  "signalled_schedule =
     replicate 16 MainTask @ replicate 3 ServerTask @ replicate 3 SignalTask
       @ replicate 5 MainTask"

definition signalled_run :: "runner Process" where
  "signalled_run = exec web_env signalled_schedule init"

definition port_taken_run :: "runner Process" where
  "port_taken_run = exec port_taken_env (replicate 16 MainTask @ replicate 3 ServerTask) init"

text \<open>
  The taken port again, further on: the server goroutine has cancelled the context while
  \<^verbatim>\<open>main\<close> waits in \<^verbatim>\<open>Run\<close> of the web runner; one step of \<^verbatim>\<open>main\<close> later, \<^verbatim>\<open>Run\<close>
  has returned on that.
\<close>

definition cancelled_wait_run :: "runner Process" where
  "cancelled_wait_run =
     exec port_taken_env (replicate 16 MainTask @ replicate 5 ServerTask) init"

definition cancelled_return_run :: "runner Process" where
  "cancelled_return_run =
     exec port_taken_env (replicate 16 MainTask @ replicate 5 ServerTask @ [MainTask]) init"

section \<open>Facts about strings and validation\<close>

lemma trim_runes_Nil: "trim_runes runes [] = []"
  by (subst trim_runes.simps) (auto simp: HasPrefix_def find_Some_iff split: option.splits)

lemma TrimSpace_Nil: "TrimSpace [] = []"
  by (simp add: TrimSpace_def TrimLeftSpace_def TrimRightSpace_def trim_runes_Nil)

lemma TrimSpace_en: "TrimSpace ''en'' = ''en''"
  by code_simp

lemma TrimSpace_coffee: "TrimSpace ''coffee shops'' = ''coffee shops''"
  by code_simp

lemma validate_spec:
  "validate r = (if spec_violations r = [] then None
                 else Some (ErrorString (spec_validation_message r)))"
  by (simp add: validate_def spec_violations_def spec_validation_message_def Let_def)

lemma spec_validation_message_nonempty: "spec_validation_message r \<noteq> []"
  by (simp add: spec_validation_message_def)

lemma spec_violations_Nil_iff: "spec_violations req = [] \<longleftrightarrow> (\<forall>rl. \<not> violated req rl)"
proof
  assume "spec_violations req = []"
  then have a: "\<forall>rl \<in> set [QueryRule, LanguageRule, MaxDepthRule, ZoomRule]. \<not> violated req rl"
    unfolding spec_violations_def filter_empty_conv by blast
  show "\<forall>rl. \<not> violated req rl"
  proof
    fix rl show "\<not> violated req rl" using a by (cases rl) simp_all
  qed
next
  assume "\<forall>rl. \<not> violated req rl"
  then show "spec_violations req = []"
    by (simp add: spec_violations_def del: violated.simps)
qed

lemma spec_violations_example_invalid: "spec_violations example_invalid = [QueryRule, ZoomRule]"
  by (simp add: spec_violations_def example_invalid_def TrimSpace_Nil TrimSpace_en)

lemma spec_violations_example_valid: "spec_violations example_valid = []"
  by (simp add: spec_violations_def example_valid_def TrimSpace_coffee TrimSpace_en)

section \<open>What the handler answers\<close>

lemma respondWithError_fresh:
  "message \<noteq> [] \<Longrightarrow>
   respondWithError h NewResponseWriter code message rid \<sigma> = (sent code (error_body message rid), \<sigma>)"
  by (simp add: respondWithError_def respondWithJSON_def Marshal_CreateJobResponse_def
      NewResponseWriter_def Write_def WriteHeader_def Header_Set_def sent_def error_body_def Let_def)

lemma respond_created_fresh:
  "respondWithJSON Marshal_CreateJobResponse h NewResponseWriter code
     \<lparr>JobID = jid, Status = ''created'', Message = ''Job created successfully'', RequestID = rid\<rparr> \<sigma>
   = (sent code (created_body jid rid), \<sigma>)"
  by (simp add: respondWithJSON_def Marshal_CreateJobResponse_def
      NewResponseWriter_def Write_def WriteHeader_def Header_Set_def sent_def created_body_def Let_def)

lemma respondWithJSON_world:
  "snd (respondWithJSON Marshal_CreateJobResponse h w code p \<sigma>) = \<sigma>"
  by (simp add: respondWithJSON_def Marshal_CreateJobResponse_def)

lemma respondWithError_world: "snd (respondWithError h w code message rid \<sigma>) = \<sigma>"
  by (simp add: respondWithError_def respondWithJSON_world)

text \<open>The response of \<open>CreateJob\<close> on a fresh writer, path by path.\<close>

lemma CreateJob_response:
  "fst (CreateJob h NewResponseWriter r \<sigma>) =
     (if Method r \<noteq> MethodPost
      then sent StatusMethodNotAllowed (error_body ''Method not allowed'' (request_id_of \<sigma>))
      else case Decoded r of
        Inl err \<Rightarrow> sent StatusBadRequest (error_body ''Invalid request body'' (request_id_of \<sigma>))
      | Inr req \<Rightarrow>
          if spec_violations req \<noteq> []
          then sent StatusBadRequest (error_body (spec_validation_message req) (request_id_of \<sigma>))
          else case fst (provider h (queue \<sigma>) (job_of \<sigma> req)) of
            Some err \<Rightarrow> sent StatusInternalServerError
                          (error_body ''Failed to create job'' (request_id_of \<sigma>))
          | None \<Rightarrow> sent StatusCreated (created_body (job_id_of \<sigma>) (request_id_of \<sigma>)))"
  by (simp add: CreateJob_def uuid_New_def validate_spec respondWithError_fresh
      respond_created_fresh spec_validation_message_nonempty Push_def log_Error_def log_Info_def
      request_id_of_def job_id_of_def job_of_def Let_def
      split: sum.splits option.splits prod.splits)

text \<open>What \<open>CreateJob\<close> leaves behind: identifiers used, jobs pushed, the store.\<close>

lemma CreateJob_world:
  "snd (CreateJob h NewResponseWriter r \<sigma>) = \<sigma>' \<Longrightarrow>
   uuid_source \<sigma>' = uuid_source \<sigma> \<and>
   (case Decoded r of
      Inr req \<Rightarrow>
        if Method r = MethodPost \<and> spec_violations req = []
        then uuid_calls \<sigma>' = uuid_calls \<sigma> + 2 \<and> pushed \<sigma>' = pushed \<sigma> @ [job_of \<sigma> req]
             \<and> queue \<sigma>' = snd (provider h (queue \<sigma>) (job_of \<sigma> req))
        else uuid_calls \<sigma>' = uuid_calls \<sigma> + 1 \<and> pushed \<sigma>' = pushed \<sigma> \<and> queue \<sigma>' = queue \<sigma>
    | Inl err \<Rightarrow> uuid_calls \<sigma>' = uuid_calls \<sigma> + 1 \<and> pushed \<sigma>' = pushed \<sigma> \<and> queue \<sigma>' = queue \<sigma>)"
  by (auto simp add: CreateJob_def uuid_New_def validate_spec respondWithError_world
      respondWithJSON_world Push_def log_Error_def log_Info_def
      request_id_of_def job_id_of_def job_of_def Let_def
      split: sum.splits option.splits prod.splits)


section \<open>Facts about identifiers in a response\<close>

lemma Contains_length: "Contains s sub \<Longrightarrow> length sub \<le> length s"
  by (induction s) (auto simp: HasPrefix_def)

lemma Contains_same_length: "Contains s sub \<Longrightarrow> length sub = length s \<Longrightarrow> sub = s"
proof (cases s)
  case Nil
  assume "Contains s sub" with Nil show ?thesis by simp
next
  case (Cons c cs)
  assume c: "Contains s sub" and l: "length sub = length s"
  from c Cons have "HasPrefix (c # cs) sub \<or> Contains cs sub" by simp
  then show ?thesis
  proof
    assume "HasPrefix (c # cs) sub"
    then show ?thesis using l Cons by (simp add: HasPrefix_def)
  next
    assume "Contains cs sub"
    then have "length sub \<le> length cs" by (rule Contains_length)
    then show ?thesis using l Cons by simp
  qed
qed

lemma is_uuid_string_length: "is_uuid_string s \<Longrightarrow> length s = 36"
  unfolding is_uuid_string_def by (drule list_all2_lengthD) simp

lemma is_uuid_example_uuids: "is_uuid_string (example_uuids n)"
proof -
  have "''0123456789abcdef'' ! (n mod 16) \<in> set ''0123456789abcdef''"
    by (rule nth_mem) simp
  then have "is_hex_digit (''0123456789abcdef'' ! (n mod 16))"
    unfolding is_hex_digit_def .
  then show ?thesis
    by (simp add: is_uuid_string_def example_uuids_def is_hex_digit_def)
qed

lemma json_strings_error_body:
  "json_strings (error_body m rid) =
     [''job_id'', '''', ''status'', ''error'', ''message'', m, ''request_id'', rid]"
  by (simp add: error_body_def)

lemma uuid_not_in_error_body:
  assumes "is_uuid_string rid" and "is_uuid_string jid" and "jid \<noteq> rid" and "length m < 36"
  shows "\<not> appears_in_body jid (sent code (error_body m rid))"
proof -
  have lj: "length jid = 36" and lr: "length rid = 36"
    using assms by (simp_all add: is_uuid_string_length)
  have short: "\<not> Contains s jid" if "length s < 36" for s
    using Contains_length [of s jid] lj that by auto
  have "\<not> Contains rid jid"
    using Contains_same_length [of rid jid] lj lr assms(3) by auto
  then show ?thesis
    using short [of "''job_id''"] short [of "''''"] short [of "''status''"] short [of "''error''"]
      short [of "''message''"] short [of m] short [of "''request_id''"] assms(4)
    by (simp add: appears_in_body_def sent_def json_strings_error_body)
qed

section \<open>The handler on the concrete values\<close>

lemma validate_example_valid: "validate example_valid = None"
  by (simp add: validate_spec spec_violations_example_valid)

lemma example_ids:
  "request_id_of example_world = ''3f2b8c1e-5d4a-4e6f-9a7b-0c1d2e3f4a50''"
  "job_id_of example_world = ''3f2b8c1e-5d4a-4e6f-9a7b-0c1d2e3f4a51''"
  by (simp_all add: request_id_of_def job_id_of_def example_world_def example_uuids_def)

lemma created_example:
  "fst (CreateJob (NewJobHandler accepting_provider []) NewResponseWriter
          (post example_valid) example_world) =
   sent 201 (created_body ''3f2b8c1e-5d4a-4e6f-9a7b-0c1d2e3f4a51''
               ''3f2b8c1e-5d4a-4e6f-9a7b-0c1d2e3f4a50'')"
  by (simp add: CreateJob_response post_def spec_violations_example_valid NewJobHandler_def
      accepting_provider_def example_ids StatusCreated_def)

lemma not_allowed_example:
  "fst (CreateJob (NewJobHandler accepting_provider []) NewResponseWriter
          \<lparr>Method = ''GET'', Decoded = Inr example_valid\<rparr> example_world) =
   sent 405 (error_body ''Method not allowed'' ''3f2b8c1e-5d4a-4e6f-9a7b-0c1d2e3f4a50'')"
  by (simp add: CreateJob_response MethodPost_def example_ids StatusMethodNotAllowed_def)

section \<open>Claims about the job handler\<close>

text \<open>
  C1. A decoded request is checked against all four rules (query empty after trimming,
  language empty after trimming, max_depth outside 0 to 10, zoom outside 0 to 21), none of
  them skipped when an earlier one fails. If any rule is violated, the answer to a POST is
  status 400 with the message "validation failed: " followed by the messages of exactly the
  violated rules, in the order query, language, max_depth, zoom, joined by ", ". The request
  of the example in the spec gets the message
  "validation failed: query is required, zoom must be between 0 and 21".
\<close>

theorem CreateJob_validation:
  assumes "Method r = MethodPost" and "Decoded r = Inr req"
  shows "validate req =
           (if \<exists>rl. violated req rl
            then Some (ErrorString (''validation failed: '' @
                   Join (map rule_message
                     (filter (violated req) [QueryRule, LanguageRule, MaxDepthRule, ZoomRule])) '', ''))
            else None)
         \<and> ((\<exists>rl. violated req rl) \<longrightarrow>
              fst (CreateJob h NewResponseWriter r \<sigma>) =
                sent 400 (error_body (''validation failed: '' @
                   Join (map rule_message
                     (filter (violated req) [QueryRule, LanguageRule, MaxDepthRule, ZoomRule])) '', '')
                   (request_id_of \<sigma>)))
         \<and> (req = \<lparr>Query = '''', Language = ''en'', MaxDepth = 3, ExtractEmail = False,
                    GeoCoords = '''', Zoom = 30\<rparr> \<longrightarrow>
              fst (CreateJob h NewResponseWriter r \<sigma>) =
                sent 400 (error_body
                  ''validation failed: query is required, zoom must be between 0 and 21''
                  (request_id_of \<sigma>)))"
proof (intro conjI impI)
  show "validate req =
           (if \<exists>rl. violated req rl
            then Some (ErrorString (''validation failed: '' @
                   Join (map rule_message
                     (filter (violated req) [QueryRule, LanguageRule, MaxDepthRule, ZoomRule])) '', ''))
            else None)"
    using spec_violations_Nil_iff [of req]
    by (simp add: validate_spec spec_validation_message_def spec_violations_def)
next
  assume "\<exists>rl. violated req rl"
  then have "spec_violations req \<noteq> []"
    by (simp add: spec_violations_Nil_iff)
  then show "fst (CreateJob h NewResponseWriter r \<sigma>) =
                sent 400 (error_body (''validation failed: '' @
                   Join (map rule_message
                     (filter (violated req) [QueryRule, LanguageRule, MaxDepthRule, ZoomRule])) '', '')
                   (request_id_of \<sigma>))"
    using assms
    by (simp add: CreateJob_response StatusBadRequest_def spec_validation_message_def
        spec_violations_def)
next
  assume "req = \<lparr>Query = '''', Language = ''en'', MaxDepth = 3, ExtractEmail = False,
                    GeoCoords = '''', Zoom = 30\<rparr>"
  then have "req = example_invalid"
    by (simp add: example_invalid_def)
  then show "fst (CreateJob h NewResponseWriter r \<sigma>) =
                sent 400 (error_body
                  ''validation failed: query is required, zoom must be between 0 and 21''
                  (request_id_of \<sigma>))"
    using assms
    by (simp add: CreateJob_response StatusBadRequest_def spec_validation_message_def
        spec_violations_example_invalid)
qed

theorem CreateJob_validation_witness:
  "Method (post example_invalid) = MethodPost
   \<and> Decoded (post example_invalid) = Inr example_invalid
   \<and> violated example_invalid QueryRule \<and> \<not> violated example_invalid LanguageRule
   \<and> \<not> violated example_invalid MaxDepthRule \<and> violated example_invalid ZoomRule
   \<and> validate example_invalid =
        Some (ErrorString ''validation failed: query is required, zoom must be between 0 and 21'')
   \<and> fst (CreateJob (NewJobHandler accepting_provider []) NewResponseWriter
            (post example_invalid) example_world) =
        sent 400 (error_body
          ''validation failed: query is required, zoom must be between 0 and 21''
          ''3f2b8c1e-5d4a-4e6f-9a7b-0c1d2e3f4a50'')"
proof -
  have m: "Method (post example_invalid) = MethodPost"
    and d: "Decoded (post example_invalid) = Inr example_invalid"
    by (simp_all add: post_def)
  have v: "violated example_invalid QueryRule" "\<not> violated example_invalid LanguageRule"
    "\<not> violated example_invalid MaxDepthRule" "violated example_invalid ZoomRule"
    by (simp_all add: example_invalid_def TrimSpace_Nil TrimSpace_en)
  have ex: "\<exists>rl. violated example_invalid rl"
    using v(1) by blast
  have rid: "request_id_of example_world = ''3f2b8c1e-5d4a-4e6f-9a7b-0c1d2e3f4a50''"
    by (simp add: request_id_of_def example_world_def example_uuids_def)
  have f: "filter (violated example_invalid) [QueryRule, LanguageRule, MaxDepthRule, ZoomRule]
             = [QueryRule, ZoomRule]"
    using v by simp
  show ?thesis
    using CreateJob_validation [OF m d, of "NewJobHandler accepting_provider []" example_world]
      m d v ex rid f
    by simp
qed

text \<open>
  C2, as the code has it. Every response of \<open>CreateJob\<close> has status 201, 400, 405 or 500
  and a body of one JSON object with exactly the members job_id, status, message and
  request_id, in this order (the response struct is the same on every path, and only an
  empty message is left out, which no path produces). A 201 body is
  {job_id: the new identifier, status: "created", message: "Job created successfully",
  request_id}; a 400, 405 or 500 body is {job_id: "", status: "error", message: a non-empty
  text, request_id}.
\<close>

theorem CreateJob_response_members:
  "StatusCode (fst (CreateJob h NewResponseWriter r \<sigma>)) \<in> {Some 201, Some 400, Some 405, Some 500}
   \<and> (StatusCode (fst (CreateJob h NewResponseWriter r \<sigma>)) = Some 201 \<longrightarrow>
        Body (fst (CreateJob h NewResponseWriter r \<sigma>)) =
          [JSON_Object [(''job_id'', JSON_String (job_id_of \<sigma>)),
                        (''status'', JSON_String ''created''),
                        (''message'', JSON_String ''Job created successfully''),
                        (''request_id'', JSON_String (request_id_of \<sigma>))]])
   \<and> (StatusCode (fst (CreateJob h NewResponseWriter r \<sigma>)) \<in> {Some 400, Some 405, Some 500} \<longrightarrow>
        (\<exists>message. message \<noteq> '''' \<and>
          Body (fst (CreateJob h NewResponseWriter r \<sigma>)) =
            [JSON_Object [(''job_id'', JSON_String ''''),
                          (''status'', JSON_String ''error''),
                          (''message'', JSON_String message),
                          (''request_id'', JSON_String (request_id_of \<sigma>))]]))
   \<and> map member_names (Body (fst (CreateJob h NewResponseWriter r \<sigma>))) =
        [[''job_id'', ''status'', ''message'', ''request_id'']]"
  using spec_validation_message_nonempty
  by (simp add: CreateJob_response sent_def error_body_def created_body_def
      StatusCreated_def StatusBadRequest_def StatusMethodNotAllowed_def
      StatusInternalServerError_def split: sum.splits option.splits)

theorem CreateJob_response_members_witness:
  "StatusCode (fst (CreateJob (NewJobHandler accepting_provider []) NewResponseWriter
                      (post example_valid) example_world)) = Some 201
   \<and> Body (fst (CreateJob (NewJobHandler accepting_provider []) NewResponseWriter
                      (post example_valid) example_world)) =
        [JSON_Object [(''job_id'', JSON_String ''3f2b8c1e-5d4a-4e6f-9a7b-0c1d2e3f4a51''),
                      (''status'', JSON_String ''created''),
                      (''message'', JSON_String ''Job created successfully''),
                      (''request_id'', JSON_String ''3f2b8c1e-5d4a-4e6f-9a7b-0c1d2e3f4a50'')]]"
  using CreateJob_response_members [of "NewJobHandler accepting_provider []"
      "post example_valid" example_world]
  by (simp add: created_example sent_def example_ids)

text \<open>
  The schema of the spec's section 6 leaves out the message of a 201 body and the job_id of
  an error body; the created response to the valid example and the 405 response to a GET
  have them.
\<close>

theorem response_schema_counterexample:
  "StatusCode (fst (CreateJob (NewJobHandler accepting_provider []) NewResponseWriter
                      (post example_valid) example_world)) = Some 201
   \<and> map member_names (Body (fst (CreateJob (NewJobHandler accepting_provider [])
                      NewResponseWriter (post example_valid) example_world)))
       \<noteq> [[''job_id'', ''status'', ''request_id'']]
   \<and> StatusCode (fst (CreateJob (NewJobHandler accepting_provider []) NewResponseWriter
                      \<lparr>Method = ''GET'', Decoded = Inr example_valid\<rparr> example_world)) = Some 405
   \<and> map member_names (Body (fst (CreateJob (NewJobHandler accepting_provider [])
                      NewResponseWriter \<lparr>Method = ''GET'', Decoded = Inr example_valid\<rparr>
                      example_world)))
       \<noteq> [[''status'', ''message'', ''request_id'']]"
  by (simp add: created_example not_allowed_example sent_def created_body_def error_body_def)

text \<open>
  C6. For a valid request (POST, decoded, no rule violated) on which \<^verbatim>\<open>Push\<close> returns an
  error, the response has status 500, and the job identifier that was generated and handed
  to \<^verbatim>\<open>Push\<close> occurs in no string of the response body, neither as a member name nor
  inside a value. The identifiers are taken to have the form \<^verbatim>\<open>uuid\<close> gives them and the
  two identifiers of the call to differ.
\<close>

theorem push_failure_hides_job_id:
  assumes "Method r = MethodPost" and "Decoded r = Inr req" and "validate req = None"
    and "fst (provider h (queue \<sigma>) (job_of \<sigma> req)) = Some err"
    and "is_uuid_string (request_id_of \<sigma>)" and "is_uuid_string (job_id_of \<sigma>)"
    and "job_id_of \<sigma> \<noteq> request_id_of \<sigma>"
  shows "StatusCode (fst (CreateJob h NewResponseWriter r \<sigma>)) = Some 500
         \<and> Body (fst (CreateJob h NewResponseWriter r \<sigma>)) =
             [error_body ''Failed to create job'' (request_id_of \<sigma>)]
         \<and> pushed (snd (CreateJob h NewResponseWriter r \<sigma>)) = pushed \<sigma> @ [job_of \<sigma> req]
         \<and> ID (job_of \<sigma> req) = job_id_of \<sigma>
         \<and> \<not> appears_in_body (job_id_of \<sigma>) (fst (CreateJob h NewResponseWriter r \<sigma>))"
proof -
  have nv: "spec_violations req = []"
    using assms(3) by (simp add: validate_spec split: if_splits)
  have resp: "fst (CreateJob h NewResponseWriter r \<sigma>) =
      sent StatusInternalServerError (error_body ''Failed to create job'' (request_id_of \<sigma>))"
    using assms(1,2,4) nv by (simp add: CreateJob_response)
  have world: "pushed (snd (CreateJob h NewResponseWriter r \<sigma>)) = pushed \<sigma> @ [job_of \<sigma> req]"
    using CreateJob_world [OF refl, of h r \<sigma>] assms(1,2) nv by simp
  have hidden: "\<not> appears_in_body (job_id_of \<sigma>)
      (sent StatusInternalServerError (error_body ''Failed to create job'' (request_id_of \<sigma>)))"
    by (rule uuid_not_in_error_body) (use assms in simp_all)
  show ?thesis
    using resp world hidden
    by (simp add: sent_def StatusInternalServerError_def job_of_def NewGmapJob_def)
qed

theorem push_failure_hides_job_id_witness:
  "Method (post example_valid) = MethodPost
   \<and> Decoded (post example_valid) = Inr example_valid
   \<and> validate example_valid = None
   \<and> fst (provider (NewJobHandler refusing_provider []) (queue example_world)
            (job_of example_world example_valid)) = Some (ErrorString ''connection refused'')
   \<and> is_uuid_string (request_id_of example_world) \<and> is_uuid_string (job_id_of example_world)
   \<and> job_id_of example_world \<noteq> request_id_of example_world
   \<and> StatusCode (fst (CreateJob (NewJobHandler refusing_provider []) NewResponseWriter
                        (post example_valid) example_world)) = Some 500
   \<and> Body (fst (CreateJob (NewJobHandler refusing_provider []) NewResponseWriter
                        (post example_valid) example_world)) =
        [error_body ''Failed to create job'' ''3f2b8c1e-5d4a-4e6f-9a7b-0c1d2e3f4a50'']
   \<and> \<not> appears_in_body ''3f2b8c1e-5d4a-4e6f-9a7b-0c1d2e3f4a51''
        (fst (CreateJob (NewJobHandler refusing_provider []) NewResponseWriter
                (post example_valid) example_world))"
proof -
  have m: "Method (post example_valid) = MethodPost"
    and d: "Decoded (post example_valid) = Inr example_valid"
    by (simp_all add: post_def)
  have p: "fst (provider (NewJobHandler refusing_provider []) (queue example_world)
            (job_of example_world example_valid)) = Some (ErrorString ''connection refused'')"
    by (simp add: NewJobHandler_def refusing_provider_def)
  have u: "is_uuid_string (request_id_of example_world)" "is_uuid_string (job_id_of example_world)"
    by (simp_all add: request_id_of_def job_id_of_def example_world_def is_uuid_example_uuids)
  have n: "job_id_of example_world \<noteq> request_id_of example_world"
    by (simp add: example_ids)
  show ?thesis
    using push_failure_hides_job_id [OF m d validate_example_valid p u n] m d p u n
      validate_example_valid
    by (simp add: example_ids)
qed

text \<open>
  C7. A valid request makes the handler draw two identifiers, the request identifier first
  and the job identifier second; when the source yields fresh values they differ. Handling
  the same valid request twice, one call after the other, hands two jobs to \<^verbatim>\<open>Push\<close>
  that agree in everything but their identifiers, which differ: nothing is deduplicated by
  payload. Where \<^verbatim>\<open>Push\<close> succeeds the 201 response carries that job identifier.
\<close>

theorem repeated_payload_distinct_ids:
  assumes "Method r = MethodPost" and "Decoded r = Inr req" and "validate req = None"
    and "distinct [uuid_source \<sigma> (uuid_calls \<sigma>), uuid_source \<sigma> (uuid_calls \<sigma> + 1),
                   uuid_source \<sigma> (uuid_calls \<sigma> + 2), uuid_source \<sigma> (uuid_calls \<sigma> + 3)]"
    and "CreateJob h NewResponseWriter r \<sigma> = (w1, \<sigma>1)"
    and "CreateJob h NewResponseWriter r \<sigma>1 = (w2, \<sigma>2)"
  shows "job_id_of \<sigma> \<noteq> request_id_of \<sigma> \<and> job_id_of \<sigma>1 \<noteq> request_id_of \<sigma>1
         \<and> job_id_of \<sigma>1 \<noteq> job_id_of \<sigma>
         \<and> pushed \<sigma>2 = pushed \<sigma> @ [job_of \<sigma> req, job_of \<sigma>1 req]
         \<and> ID (job_of \<sigma> req) = job_id_of \<sigma> \<and> ID (job_of \<sigma>1 req) = job_id_of \<sigma>1
         \<and> job_of \<sigma>1 req = (job_of \<sigma> req)\<lparr>ID := job_id_of \<sigma>1\<rparr>
         \<and> (fst (provider h (queue \<sigma>) (job_of \<sigma> req)) = None \<longrightarrow>
               w1 = sent 201 (created_body (job_id_of \<sigma>) (request_id_of \<sigma>)))
         \<and> (fst (provider h (queue \<sigma>1) (job_of \<sigma>1 req)) = None \<longrightarrow>
               w2 = sent 201 (created_body (job_id_of \<sigma>1) (request_id_of \<sigma>1)))"
proof -
  have nv: "spec_violations req = []"
    using assms(3) by (simp add: validate_spec split: if_splits)
  have s1: "snd (CreateJob h NewResponseWriter r \<sigma>) = \<sigma>1"
    and s2: "snd (CreateJob h NewResponseWriter r \<sigma>1) = \<sigma>2"
    using assms(5,6) by simp_all
  have f1: "fst (CreateJob h NewResponseWriter r \<sigma>) = w1"
    and f2: "fst (CreateJob h NewResponseWriter r \<sigma>1) = w2"
    using assms(5,6) by simp_all
  have a1: "uuid_source \<sigma>1 = uuid_source \<sigma>" "uuid_calls \<sigma>1 = uuid_calls \<sigma> + 2"
    "pushed \<sigma>1 = pushed \<sigma> @ [job_of \<sigma> req]"
    using CreateJob_world [OF s1] assms(1,2) nv by simp_all
  have a2: "pushed \<sigma>2 = pushed \<sigma>1 @ [job_of \<sigma>1 req]"
    using CreateJob_world [OF s2] assms(1,2) nv by simp_all
  have ids: "job_id_of \<sigma> \<noteq> request_id_of \<sigma>" "job_id_of \<sigma>1 \<noteq> request_id_of \<sigma>1"
    "job_id_of \<sigma>1 \<noteq> job_id_of \<sigma>"
    using assms(4) a1 by (auto simp: job_id_of_def request_id_of_def numeral_3_eq_3 numeral_2_eq_2)
  have r1: "fst (provider h (queue \<sigma>) (job_of \<sigma> req)) = None \<longrightarrow>
               w1 = sent 201 (created_body (job_id_of \<sigma>) (request_id_of \<sigma>))"
    using f1 assms(1,2) nv by (auto simp: CreateJob_response StatusCreated_def)
  have r2: "fst (provider h (queue \<sigma>1) (job_of \<sigma>1 req)) = None \<longrightarrow>
               w2 = sent 201 (created_body (job_id_of \<sigma>1) (request_id_of \<sigma>1))"
    using f2 assms(1,2) nv by (auto simp: CreateJob_response StatusCreated_def)
  show ?thesis
    using ids a1 a2 r1 r2 by (simp add: job_of_def NewGmapJob_def)
qed

theorem repeated_payload_distinct_ids_witness:
  "Method (post example_valid) = MethodPost \<and> Decoded (post example_valid) = Inr example_valid
   \<and> validate example_valid = None
   \<and> distinct [uuid_source example_world (uuid_calls example_world),
                uuid_source example_world (uuid_calls example_world + 1),
                uuid_source example_world (uuid_calls example_world + 2),
                uuid_source example_world (uuid_calls example_world + 3)]
   \<and> fst (CreateJob (NewJobHandler accepting_provider []) NewResponseWriter (post example_valid)
          example_world) =
        sent 201 (created_body ''3f2b8c1e-5d4a-4e6f-9a7b-0c1d2e3f4a51''
                    ''3f2b8c1e-5d4a-4e6f-9a7b-0c1d2e3f4a50'')
   \<and> fst (CreateJob (NewJobHandler accepting_provider []) NewResponseWriter (post example_valid)
          (snd (CreateJob (NewJobHandler accepting_provider []) NewResponseWriter
                  (post example_valid) example_world))) =
        sent 201 (created_body ''3f2b8c1e-5d4a-4e6f-9a7b-0c1d2e3f4a53''
                    ''3f2b8c1e-5d4a-4e6f-9a7b-0c1d2e3f4a52'')
   \<and> map ID (pushed (snd (CreateJob (NewJobHandler accepting_provider []) NewResponseWriter
          (post example_valid)
          (snd (CreateJob (NewJobHandler accepting_provider []) NewResponseWriter
                  (post example_valid) example_world))))) =
        [''3f2b8c1e-5d4a-4e6f-9a7b-0c1d2e3f4a51'', ''3f2b8c1e-5d4a-4e6f-9a7b-0c1d2e3f4a53'']"
proof -
  let ?h = "NewJobHandler accepting_provider []"
  let ?r = "post example_valid"
  let ?s1 = "snd (CreateJob ?h NewResponseWriter ?r example_world)"
  let ?s2 = "snd (CreateJob ?h NewResponseWriter ?r ?s1)"
  have c1: "CreateJob ?h NewResponseWriter ?r example_world
              = (fst (CreateJob ?h NewResponseWriter ?r example_world), ?s1)"
    and c2: "CreateJob ?h NewResponseWriter ?r ?s1
              = (fst (CreateJob ?h NewResponseWriter ?r ?s1), ?s2)"
    by simp_all
  have m: "Method ?r = MethodPost" and d: "Decoded ?r = Inr example_valid"
    by (simp_all add: post_def)
  have fr: "distinct [uuid_source example_world (uuid_calls example_world),
                uuid_source example_world (uuid_calls example_world + 1),
                uuid_source example_world (uuid_calls example_world + 2),
                uuid_source example_world (uuid_calls example_world + 3)]"
    by (simp add: example_world_def example_uuids_def)
  have w: "uuid_source ?s1 = example_uuids" "uuid_calls ?s1 = 2"
    using CreateJob_world [OF refl, of ?h ?r example_world] m d spec_violations_example_valid
    by (simp_all add: example_world_def)
  have ids1: "job_id_of ?s1 = ''3f2b8c1e-5d4a-4e6f-9a7b-0c1d2e3f4a53''"
    "request_id_of ?s1 = ''3f2b8c1e-5d4a-4e6f-9a7b-0c1d2e3f4a52''"
    using w by (simp_all add: job_id_of_def request_id_of_def example_uuids_def)
  have p: "fst (provider ?h q j) = None" for q j
    by (simp add: NewJobHandler_def accepting_provider_def)
  have e: "pushed example_world = []"
    by (simp add: example_world_def)
  show ?thesis
    using repeated_payload_distinct_ids [OF m d validate_example_valid fr c1 c2]
      m d validate_example_valid fr p ids1 e
    by (simp add: example_ids)
qed

text \<open>
  C9. When \<^verbatim>\<open>json.Marshal\<close> fails in \<open>respondWithJSON\<close>, the status written is 500,
  nothing is written to the body, the header map is left as it was (no Content-Type), and
  the failure is logged: on a fresh writer the response is status 500 with an empty body
  and no header, not the error object.
\<close>

theorem respondWithJSON_marshal_failure:
  assumes "json_Marshal payload = Inl err"
  shows "fst (respondWithJSON json_Marshal h NewResponseWriter code payload \<sigma>) =
           \<lparr>Header = Map.empty, StatusCode = Some 500, Body = []\<rparr>
         \<and> Header (fst (respondWithJSON json_Marshal h w code payload \<sigma>)) = Header w
         \<and> Body (fst (respondWithJSON json_Marshal h w code payload \<sigma>)) = Body w
         \<and> (StatusCode w = None \<longrightarrow>
              StatusCode (fst (respondWithJSON json_Marshal h w code payload \<sigma>)) = Some 500)
         \<and> logs (snd (respondWithJSON json_Marshal h w code payload \<sigma>)) =
             logs \<sigma> @ [Log ErrorLevel ''failed to marshal response''
                          (logger h @ [(''error'', Error err)])]"
  using assms
  by (simp add: respondWithJSON_def WriteHeader_def NewResponseWriter_def
      StatusInternalServerError_def log_Error_def zap_Error_def)

theorem respondWithJSON_marshal_failure_witness:
  "Marshal_chan () = Inl (ErrorString ''json: unsupported type: chan int'')
   \<and> fst (respondWithJSON Marshal_chan (NewJobHandler accepting_provider [])
            NewResponseWriter 201 () example_world) =
        \<lparr>Header = Map.empty, StatusCode = Some 500, Body = []\<rparr>
   \<and> Header (fst (respondWithJSON Marshal_chan (NewJobHandler accepting_provider [])
            NewResponseWriter 201 () example_world)) ''Content-Type'' = None"
proof -
  have f: "Marshal_chan () = Inl (ErrorString ''json: unsupported type: chan int'')"
    by (simp add: Marshal_chan_def)
  show ?thesis
    using respondWithJSON_marshal_failure [where json_Marshal = Marshal_chan and payload = "()"
        and h = "NewJobHandler accepting_provider []" and code = 201 and \<sigma> = example_world
        and w = NewResponseWriter, OF f] f
    by simp
qed

section \<open>Every execution keeps the invariant\<close>

lemma Server_Start_emits [simp]:
  "Server_Start t s = emit t (LogInfo ''API server is running'') (emit t StartCall s)"
  by (simp add: Server_Start_def)

lemma events_of_emit [simp]:
  "events_of t (emit t' e s) = events_of t s @ (if t' = t then [e] else [])"
  by (simp add: events_of_def emit_def)

lemma emit_fields [simp]:
  "main_pc (emit t e s) = main_pc s" "signal_pc (emit t e s) = signal_pc s"
  "server_pc (emit t e s) = server_pc s" "cancelled (emit t e s) = cancelled s"
  "main_err (emit t e s) = main_err s" "runnerInstance (emit t e s) = runnerInstance s"
  "server_err (emit t e s) = server_err s" "exit_status (emit t e s) = exit_status s"
  by (simp_all add: emit_def)

lemma events_of_update [simp]:
  "events_of t (s\<lparr>main_pc := a\<rparr>) = events_of t s"
  "events_of t (s\<lparr>signal_pc := b\<rparr>) = events_of t s"
  "events_of t (s\<lparr>server_pc := c\<rparr>) = events_of t s"
  "events_of t (s\<lparr>cancelled := d\<rparr>) = events_of t s"
  "events_of t (s\<lparr>main_err := f\<rparr>) = events_of t s"
  "events_of t (s\<lparr>runnerInstance := g\<rparr>) = events_of t s"
  "events_of t (s\<lparr>server_err := h\<rparr>) = events_of t s"
  "events_of t (s\<lparr>exit_status := i\<rparr>) = events_of t s"
  by (simp_all add: events_of_def)

lemma main_inv_init: "main_inv E init"
  by (simp add: main_inv_def main_data_def init_def events_of_def final_events_def)

lemma main_inv_main_step:
  assumes "main_inv E s" and "exit_status s = None"
  shows "main_inv E (main_step E (main_pc s) s)"
proof (cases "main_pc s")
  case L26
  with assms show ?thesis
    by (simp add: main_inv_def main_data_def final_events_def startup_def)
qed (use assms in \<open>auto simp: main_inv_def main_data_def final_events_def startup_def wiring_def
      on_factory_error_def on_run_error_def on_run_ok_def cancel_def os_Exit_def panic_def Let_def
      split: option.splits sum.splits outcome.splits\<close>)

lemma trace_emit [simp]: "trace (emit t e s) = trace s @ [(t, e)]"
  by (simp add: emit_def)

lemma main_step_others:
  assumes "main_data E s" and "exit_status s = None"
  shows "events_of ServerTask (main_step E (main_pc s) s) = events_of ServerTask s"
    and "events_of SignalTask (main_step E (main_pc s) s) = events_of SignalTask s"
    and "server_err (main_step E (main_pc s) s) = server_err s"
  using assms
  by (cases "main_pc s";
      auto simp: main_data_def cancel_def os_Exit_def panic_def Let_def
        split: option.splits sum.splits outcome.splits)+

lemma inv_init: "inv E init"
  by (simp add: inv_def main_inv_init server_inv_def signal_inv_def cancel_inv_def)
     (simp add: init_def events_of_def)

lemma inv_main_step:
  assumes "inv E s" and "exit_status s = None"
  shows "inv E (main_step E (main_pc s) s)"
proof -
  have m: "main_inv E s" and sv: "server_inv E s" and sg: "signal_inv E s" and c: "cancel_inv s"
    using assms(1) by (simp_all add: inv_def)
  have d: "main_data E s" using m by (simp add: main_inv_def)
  have 1: "main_inv E (main_step E (main_pc s) s)"
    using m assms(2) by (rule main_inv_main_step)
  have 2: "server_inv E (main_step E (main_pc s) s)"
    using sv d assms(2) main_step_others [OF d assms(2)]
    apply (cases "main_pc s")
    apply (auto simp: server_inv_def main_data_def cancel_def os_Exit_def panic_def Let_def
        split: option.splits sum.splits outcome.splits)
    done
  have 3: "signal_inv E (main_step E (main_pc s) s)"
    using sg d assms(2) main_step_others [OF d assms(2)]
    apply (cases "main_pc s")
    apply (auto simp: signal_inv_def main_data_def cancel_def os_Exit_def panic_def Let_def
        split: option.splits sum.splits outcome.splits)
    done
  have 4: "cancel_inv (main_step E (main_pc s) s)"
    using c d assms(2)
    apply (cases "main_pc s")
    apply (auto simp: cancel_inv_def main_data_def cancel_def os_Exit_def panic_def Let_def
        split: option.splits sum.splits outcome.splits)
    done
  show ?thesis using 1 2 3 4 by (simp add: inv_def)
qed

lemma main_inv_frame:
  assumes "main_inv E s"
    and "main_pc s' = main_pc s" and "main_err s' = main_err s"
    and "runnerInstance s' = runnerInstance s" and "exit_status s' = exit_status s"
    and "(signal_pc s' = None) = (signal_pc s = None)"
    and "(server_pc s' = None) = (server_pc s = None)"
    and "events_of MainTask s' = events_of MainTask s"
  shows "main_inv E s'"
  using assms(1) unfolding main_inv_def main_data_def final_events_def assms(2-8) .

lemma server_inv_frame:
  assumes "server_inv E s"
    and "server_pc s' = server_pc s" and "server_err s' = server_err s"
    and "cancelled s \<longrightarrow> cancelled s'"
    and "events_of ServerTask s' = events_of ServerTask s"
  shows "server_inv E s'"
  using assms(1,4) unfolding server_inv_def assms(2,3,5) by blast

lemma signal_inv_frame:
  assumes "signal_inv E s"
    and "signal_pc s' = signal_pc s"
    and "cancelled s \<longrightarrow> cancelled s'"
    and "events_of SignalTask s' = events_of SignalTask s"
  shows "signal_inv E s'"
  using assms(1,3) unfolding signal_inv_def assms(2,4) by blast

lemma main_inv_signal_step:
  assumes "main_inv E s" "signal_pc s = Some pc"
  shows  "main_inv E (signal_step E pc s)"
  by (rule main_inv_frame [OF assms(1)]) (use assms(2) in \<open>cases pc; simp add: cancel_def\<close>)+

lemma server_inv_signal_step:
  assumes "server_inv E s" "signal_pc s = Some pc"
  shows  "server_inv E (signal_step E pc s)"
  by (rule server_inv_frame [OF assms(1)]) (use assms(2) in \<open>cases pc; simp add: cancel_def\<close>)+

lemma signal_inv_signal_step:
  assumes "signal_inv E s" "signal_pc s = Some pc"
  shows  "signal_inv E (signal_step E pc s)"
    using assms
    by (cases pc) (auto simp: signal_inv_def cancel_def on_signal_def)

lemma cancel_inv_signal_step:
  assumes "cancel_inv s" "signal_pc s = Some pc"
  shows  "cancel_inv (signal_step E pc s)"
    using assms
    by (cases pc) (auto simp: cancel_inv_def cancel_def)

lemma server_no_panic:
  assumes "server_inv E s" and "server_pc s = Some L64"
  obtains e where "server_err s = Some e"
  using assms by (auto simp: server_inv_def)

lemma main_inv_server_step:
  assumes "main_inv E s" "server_inv E s" "server_pc s = Some pc"
  shows  "main_inv E (server_step E pc s)"
proof (cases "pc = L64")
  case True
  then obtain e where "server_err s = Some e"
    using assms(2,3) server_no_panic by blast
  with True show ?thesis
    by (intro main_inv_frame [OF assms(1)]) (use assms(3) in \<open>simp_all\<close>)
next
  case False
  then show ?thesis
    by (intro main_inv_frame [OF assms(1)])
       (use assms(3) in \<open>cases pc; simp add: cancel_def split: outcome.splits\<close>)+
qed

lemma signal_inv_server_step:
  assumes "signal_inv E s" "server_inv E s" "server_pc s = Some pc"
  shows  "signal_inv E (server_step E pc s)"
proof (cases "pc = L64")
  case True
  then obtain e where "server_err s = Some e"
    using assms(2,3) server_no_panic by blast
  with True show ?thesis
    by (intro signal_inv_frame [OF assms(1)]) (use assms(3) in \<open>simp_all\<close>)
next
  case False
  then show ?thesis
    by (intro signal_inv_frame [OF assms(1)])
       (use assms(3) in \<open>cases pc; simp add: cancel_def split: outcome.splits\<close>)+
qed

lemma server_inv_server_step:
  assumes "server_inv E s" "server_pc s = Some pc"
  shows  "server_inv E (server_step E pc s)"
  using assms
  by (cases pc)
     (auto simp: server_inv_def cancel_def panic_def serving_def on_server_error_def
        split: outcome.splits option.splits)

lemma cancel_inv_server_step:
  assumes "cancel_inv s" "server_inv E s" "server_pc s = Some pc"
  shows  "cancel_inv (server_step E pc s)"
  using assms
  by (cases pc)
     (auto simp: cancel_inv_def cancel_def server_inv_def panic_def
        split: outcome.splits option.splits)

lemma inv_step: "inv E s \<Longrightarrow> inv E (step E t s)"
proof (cases "exit_status s = None")
  case False
  assume "inv E s"
  with False show ?thesis by (simp add: step_def)
next
  case True
  assume i: "inv E s"
  show ?thesis
  proof (cases t)
    case MainTask
    with True i show ?thesis by (simp add: step_def inv_main_step)
  next
    case SignalTask
    show ?thesis
    proof (cases "signal_pc s")
      case None
      with True SignalTask i show ?thesis by (simp add: step_def)
    next
      case (Some pc)
      with True SignalTask i show ?thesis
        by (simp add: step_def inv_def main_inv_signal_step server_inv_signal_step signal_inv_signal_step cancel_inv_signal_step)
    qed
  next
    case ServerTask
    show ?thesis
    proof (cases "server_pc s")
      case None
      with True ServerTask i show ?thesis by (simp add: step_def)
    next
      case (Some pc)
      with True ServerTask i show ?thesis
        by (simp add: step_def inv_def main_inv_server_step server_inv_server_step signal_inv_server_step cancel_inv_server_step)
    qed
  qed
qed

lemma inv_exec: "inv E s \<Longrightarrow> inv E (exec E sched s)"
  by (induction sched arbitrary: s) (simp_all add: inv_step)

lemma inv_reachable: "inv E (exec E sched init)"
  by (rule inv_exec) (rule inv_init)

lemma Run_returns_D:
  "Run_returns E \<Longrightarrow> resolved E = Inr r \<Longrightarrow> Run E r c \<noteq> Pending"
  by (cases c) (simp_all add: Run_returns_def)

lemma remaining_pos: "0 < remaining pc"
  by (cases pc) simp_all

lemma step_other_main:
  assumes "inv E s" and "t \<noteq> MainTask"
  shows "main_pc (step E t s) = main_pc s \<and> exit_status (step E t s) = exit_status s"
proof (cases t)
  case MainTask
  with assms show ?thesis by simp
next
  case SignalTask
  show ?thesis
  proof (cases "signal_pc s")
    case None
    with SignalTask show ?thesis by (simp add: step_def)
  next
    case (Some pc)
    with SignalTask show ?thesis by (cases pc) (simp_all add: step_def cancel_def)
  qed
next
  case ServerTask
  show ?thesis
  proof (cases "server_pc s")
    case None
    with ServerTask show ?thesis by (simp add: step_def)
  next
    case (Some pc)
    have sv: "server_inv E s" using assms(1) by (simp add: inv_def)
    show ?thesis
    proof (cases "pc = L64")
      case True
      then obtain e where "server_err s = Some e"
        using sv Some server_no_panic by blast
      with True Some ServerTask show ?thesis by (simp add: step_def)
    next
      case False
      with Some ServerTask show ?thesis
        by (cases pc) (simp_all add: step_def cancel_def split: outcome.splits)
    qed
  qed
qed

lemma todo_other: "inv E s \<Longrightarrow> t \<noteq> MainTask \<Longrightarrow> todo (step E t s) = todo s"
  using step_other_main [of E s t] by (simp add: todo_def)

lemma todo_main:
  assumes "inv E s" and "Run_returns E" and "0 < todo s"
  shows "todo (step E MainTask s) < todo s"
proof -
  have ex: "exit_status s = None"
    using assms(3) by (simp add: todo_def split: if_splits)
  have d: "main_data E s"
    using assms(1) by (simp add: inv_def main_inv_def)
  have nb: "resolved E = Inr r \<Longrightarrow> Run E r c \<noteq> Pending" for r c
    using assms(2) by (rule Run_returns_D)
  show ?thesis
    using ex d nb
    by (cases "main_pc s")
       (auto simp: step_def todo_def main_data_def resolved_def cancel_def os_Exit_def panic_def
          Let_def remaining_pos split: option.splits sum.splits outcome.splits)
qed

lemma todo_exec:
  "inv E s \<Longrightarrow> Run_returns E \<Longrightarrow> todo (exec E sched s) \<le> todo s - count_list sched MainTask"
proof (induction sched arbitrary: s)
  case Nil
  then show ?case by simp
next
  case (Cons t ts)
  have i: "inv E (step E t s)" using Cons.prems(1) by (rule inv_step)
  have ih: "todo (exec E ts (step E t s)) \<le> todo (step E t s) - count_list ts MainTask"
    using Cons.IH [OF i Cons.prems(2)] .
  show ?case
  proof (cases "t = MainTask")
    case False
    then show ?thesis using ih todo_other [OF Cons.prems(1) False] by simp
  next
    case True
    show ?thesis
    proof (cases "0 < todo s")
      case True
      then have "todo (step E MainTask s) < todo s"
        using todo_main [OF Cons.prems(1,2)] by simp
      then show ?thesis using ih \<open>t = MainTask\<close> by simp
    next
      case False
      then have "exit_status s \<noteq> None"
        using remaining_pos [of "main_pc s"] by (auto simp: todo_def split: if_splits)
      then have "step E t s = s" by (simp add: step_def)
      then show ?thesis using ih False by simp
    qed
  qed
qed

lemma exits_eventually:
  fixes E :: "'r Env"
  assumes "Run_returns E" and "21 \<le> count_list sched MainTask"
  shows "exit_status (exec E sched init) \<noteq> None"
proof -
  let ?i = "init :: 'r Process"
  have "todo (exec E sched ?i) \<le> todo ?i - count_list sched MainTask"
    using inv_init [of E] assms(1) by (rule todo_exec)
  moreover have "todo ?i = 21"
    by (simp add: todo_def init_def)
  ultimately have "todo (exec E sched ?i) = 0"
    using assms(2) by simp
  then show ?thesis
    using remaining_pos [of "main_pc (exec E sched ?i)"]
    by (auto simp: todo_def split: if_splits)
qed

lemma trace_events: "(t, e) \<in> set (trace s) \<Longrightarrow> e \<in> set (events_of t s)"
  by (force simp: events_of_def)

lemma events_trace: "e \<in> set (events_of t s) \<Longrightarrow> (t, e) \<in> set (trace s)"
  by (auto simp: events_of_def)

lemma inv_main_events:
  "inv E s \<Longrightarrow>
   events_of MainTask s =
     main_history E (main_pc s) (main_err s) (runnerInstance s) @ final_events s"
  by (simp add: inv_def main_inv_def)

lemma inv_main_data: "inv E s \<Longrightarrow> main_data E s"
  by (simp add: inv_def main_inv_def)

lemma exit_pcs:
  assumes "main_data E s" and "exit_status s = Some c"
  shows "main_pc s = L50 \<and> c = 1 \<or> main_pc s = L75 \<and> c = 1 \<or> main_pc s = L83 \<and> c = 1
         \<or> main_pc s = L89 \<and> c = 0"
  using assms by (simp add: main_data_def)

lemma exit_cases:
  assumes "inv E s" and "exit_status s = Some c"
  shows "(c = 1 \<and> main_pc s = L50 \<and> server_pc s = None \<and>
           (\<exists>e. sql_Open E ''pgx'' (Dsn (cfg E)) = Some e \<and>
             events_of MainTask s =
               startup E @ [LogFatal (''failed to connect to database:'' @ Error e), Exit 1]))
       \<or> (c = 1 \<and> main_pc s = L75 \<and> server_pc s \<noteq> None \<and>
           (\<exists>e. resolved E = Inl e \<and>
             events_of MainTask s =
               startup E @ wiring @
               [Cancel, StderrWrite (Error e @ [CHR 0x0A]), TelemetryClose, Exit 1]))
       \<or> (c = 1 \<and> main_pc s = L83 \<and> server_pc s \<noteq> None \<and>
           (\<exists>r e b. resolved E = Inr r \<and> Run E r b = Returned (Some e) \<and>
             events_of MainTask s =
               startup E @ wiring @
               [RunCall r, RunReturn r (Some e), StderrWrite (Error e @ [CHR 0x0A]),
                CloseCall r, TelemetryClose, Cancel, Exit 1]))
       \<or> (c = 0 \<and> main_pc s = L89 \<and> server_pc s \<noteq> None \<and>
           (\<exists>r b. resolved E = Inr r \<and> Run E r b = Returned None \<and>
             events_of MainTask s =
               startup E @ wiring @
               [RunCall r, RunReturn r None, CloseCall r, TelemetryClose, Cancel, Exit 0]))"
proof -
  have d: "main_data E s" using assms(1) by (rule inv_main_data)
  have h: "events_of MainTask s =
     main_history E (main_pc s) (main_err s) (runnerInstance s) @ final_events s"
    using assms(1) by (rule inv_main_events)
  from exit_pcs [OF d assms(2)] show ?thesis
  proof (elim disjE conjE)
    assume "main_pc s = L50" "c = 1"
    then show ?thesis
      using d h assms(2) by (auto simp: main_data_def final_events_def)
  next
    assume "main_pc s = L75" "c = 1"
    then show ?thesis
      using d h assms(2)
      by (auto simp: main_data_def final_events_def resolved_def on_factory_error_def)
  next
    assume "main_pc s = L83" "c = 1"
    then show ?thesis
      using d h assms(2)
      by (auto simp: main_data_def final_events_def resolved_def on_run_error_def)
  next
    assume "main_pc s = L89" "c = 0"
    then show ?thesis
      using d h assms(2)
      by (auto simp: main_data_def final_events_def resolved_def on_run_ok_def)
  qed
qed

lemma final_events_cases:
  "final_events s = [] \<or> (\<exists>c. final_events s = [Exit c])
   \<or> (\<exists>m c. final_events s = [LogFatal m, Exit c])"
  by (cases "exit_status s"; cases "main_err s"; cases "main_pc s = L50")
     (simp_all add: final_events_def)

lemma final_no_runner_call: "filter is_runner_call (final_events s) = []"
  using final_events_cases [of s] by auto

lemma final_no_shutdown: "ShutdownCall \<notin> set (final_events s)"
  using final_events_cases [of s] by auto

lemma main_runner_calls:
  assumes "inv E s"
  shows "\<exists>r. (calls_at (main_pc s) \<noteq> 0 \<longrightarrow> resolved E = Inr r \<and> runnerInstance s = Some r)
           \<and> filter is_runner_call (events_of MainTask s) =
               take (calls_at (main_pc s)) [RunCall r, RunReturn r (main_err s), CloseCall r]"
proof -
  have d: "main_data E s" using assms by (rule inv_main_data)
  have h: "events_of MainTask s =
     main_history E (main_pc s) (main_err s) (runnerInstance s) @ final_events s"
    using assms by (rule inv_main_events)
  show ?thesis
    using d
    by (cases "main_pc s")
       (auto simp: h final_no_runner_call main_data_def resolved_def startup_def wiring_def
          on_factory_error_def on_run_error_def on_run_ok_def split: option.splits)
qed

lemma server_history_plain:
  "e \<in> set (server_history pc eo) \<Longrightarrow>
   \<not> is_runner_call e \<and> e \<noteq> ShutdownCall \<and> (\<forall>c. e \<noteq> Exit c) \<and> e \<noteq> Factory"
  by (cases "(pc, eo)" rule: server_history.cases)
     (auto simp: serving_def on_server_error_def split: option.splits if_splits)

lemma signal_history_plain:
  "e \<in> set (signal_history pc) \<Longrightarrow>
   \<not> is_runner_call e \<and> e \<noteq> ShutdownCall \<and> (\<forall>c. e \<noteq> Exit c) \<and> e \<noteq> Factory"
  by (cases pc rule: signal_history.cases) (auto simp: on_signal_def)

lemma main_history_no_shutdown: "ShutdownCall \<notin> set (main_history E pc eo ro)"
  by (cases pc)
     (auto simp: startup_def wiring_def on_factory_error_def on_run_error_def on_run_ok_def
        split: option.splits dest: in_set_takeD)

lemma other_tasks_plain:
  assumes "inv E s" and "(t, e) \<in> set (trace s)" and "t \<noteq> MainTask"
  shows "\<not> is_runner_call e \<and> e \<noteq> ShutdownCall \<and> (\<forall>c. e \<noteq> Exit c) \<and> e \<noteq> Factory"
proof (cases t)
  case MainTask
  with assms(3) show ?thesis by simp
next
  case SignalTask
  then have "e \<in> set (signal_history (signal_pc s))"
    using assms(1,2) trace_events [of t e s] by (simp add: inv_def signal_inv_def)
  then show ?thesis by (rule signal_history_plain)
next
  case ServerTask
  then have "e \<in> set (server_history (server_pc s) (server_err s))"
    using assms(1,2) trace_events [of t e s] by (simp add: inv_def server_inv_def)
  then show ?thesis by (rule server_history_plain)
qed

lemma no_shutdown:
  assumes "inv E s"
  shows "(t, ShutdownCall) \<notin> set (trace s)"
proof
  assume a: "(t, ShutdownCall) \<in> set (trace s)"
  show False
  proof (cases "t = MainTask")
    case False
    with other_tasks_plain [OF assms a] show False by simp
  next
    case True
    then have "ShutdownCall \<in> set (events_of MainTask s)"
      using a trace_events by fastforce
    then have "ShutdownCall \<in> set (final_events s)"
      using main_history_no_shutdown [of E "main_pc s" "main_err s" "runnerInstance s"]
      by (auto simp: inv_main_events [OF assms])
    then show False
      using final_no_shutdown by blast
  qed
qed

lemma filter_one_task:
  assumes "\<And>t e. (t, e) \<in> set xs \<Longrightarrow> P e \<Longrightarrow> t = T"
  shows "filter (\<lambda>te. P (snd te)) xs
         = map (Pair T) (filter P (map snd (filter (\<lambda>te. fst te = T) xs)))"
  using assms
proof (induction xs)
  case Nil
  then show ?case by simp
next
  case (Cons x xs)
  obtain t e where x: "x = (t, e)" by (cases x)
  have "\<And>t e. (t, e) \<in> set xs \<Longrightarrow> P e \<Longrightarrow> t = T"
    using Cons.prems by auto
  then have ih: "filter (\<lambda>te. P (snd te)) xs
         = map (Pair T) (filter P (map snd (filter (\<lambda>te. fst te = T) xs)))"
    by (rule Cons.IH)
  have "P e \<Longrightarrow> t = T" using Cons.prems [of t e] x by simp
  then show ?case using ih x by auto
qed

lemma runner_calls_main:
  assumes "inv E s"
  shows "runner_calls s = map (Pair MainTask) (filter is_runner_call (events_of MainTask s))"
  unfolding runner_calls_def events_of_def
proof (rule filter_one_task)
  fix t e assume "(t, e) \<in> set (trace s)" and "is_runner_call e"
  then show "t = MainTask"
    using other_tasks_plain [OF assms, of t e] by blast
qed

lemma in_main_events: "(MainTask, e) \<in> set (trace s) \<longleftrightarrow> e \<in> set (events_of MainTask s)"
  using trace_events [of MainTask e s] events_trace [of e MainTask s] by blast

lemma exit_consider [consumes 2, case_names fatal factory_error run_error clean]:
  assumes "inv E s" and "exit_status s = Some c"
  obtains
    (fatal) e where "c = 1" "main_pc s = L50" "server_pc s = None"
      "sql_Open E ''pgx'' (Dsn (cfg E)) = Some e"
      "events_of MainTask s =
         startup E @ [LogFatal (''failed to connect to database:'' @ Error e), Exit 1]"
  | (factory_error) e where "c = 1" "main_pc s = L75" "server_pc s \<noteq> None"
      "resolved E = Inl e"
      "events_of MainTask s =
         startup E @ wiring @
         [Cancel, StderrWrite (Error e @ [CHR 0x0A]), TelemetryClose, Exit 1]"
  | (run_error) r e b where "c = 1" "main_pc s = L83" "server_pc s \<noteq> None"
      "resolved E = Inr r" "Run E r b = Returned (Some e)"
      "events_of MainTask s =
         startup E @ wiring @
         [RunCall r, RunReturn r (Some e), StderrWrite (Error e @ [CHR 0x0A]),
          CloseCall r, TelemetryClose, Cancel, Exit 1]"
  | (clean) r b where "c = 0" "main_pc s = L89" "server_pc s \<noteq> None"
      "resolved E = Inr r" "Run E r b = Returned None"
      "events_of MainTask s =
         startup E @ wiring @
         [RunCall r, RunReturn r None, CloseCall r, TelemetryClose, Cancel, Exit 0]"
  using exit_cases [OF assms] by (elim disjE conjE exE) blast+

lemma startup_plain:
  "Factory \<notin> set (startup E)" "RunReturn r x \<notin> set (startup E)" "RunCall r \<notin> set (startup E)"
  "CloseCall r \<notin> set (startup E)"
  by (simp_all add: startup_def)

lemma wiring_plain:
  "RunReturn r x \<notin> set wiring" "RunCall r \<notin> set wiring" "CloseCall r \<notin> set wiring"
  "Factory \<in> set wiring"
  by (simp_all add: wiring_def)

lemma exit_code_iff:
  assumes "inv E s" and "exit_status s = Some c"
  shows "(c = 0 \<or> c = 1) \<and> (c = 0 \<longleftrightarrow> (\<exists>r. (MainTask, RunReturn r None) \<in> set (trace s)))"
  using assms
  by (cases rule: exit_consider) (simp_all add: in_main_events startup_plain wiring_plain)

lemma exit_after_factory_error:
  assumes "inv E s" and "exit_status s = Some c"
    and "(MainTask, Factory) \<in> set (trace s)" and "resolved E = Inl e"
  shows "c = 1 \<and> events_of MainTask s =
              startup E @ wiring @
              [Cancel, StderrWrite (Error e @ [CHR 0x0A]), TelemetryClose, Exit 1]"
  using assms(1,2)
  by (cases rule: exit_consider) (use assms(3,4) in \<open>simp_all add: in_main_events startup_plain\<close>)

lemma exit_after_run_error:
  assumes "inv E s" and "exit_status s = Some c"
    and "(MainTask, RunReturn r (Some e)) \<in> set (trace s)"
  shows "c = 1 \<and> events_of MainTask s =
              startup E @ wiring @
              [RunCall r, RunReturn r (Some e), StderrWrite (Error e @ [CHR 0x0A]),
               CloseCall r, TelemetryClose, Cancel, Exit 1]"
  using assms(1,2)
  by (cases rule: exit_consider)
     (use assms(3) in \<open>simp_all add: in_main_events startup_plain wiring_plain\<close>)

lemma exit_after_run_ok:
  assumes "inv E s" and "exit_status s = Some c"
    and "(MainTask, RunReturn r None) \<in> set (trace s)"
  shows "c = 0 \<and> events_of MainTask s =
              startup E @ wiring @
              [RunCall r, RunReturn r None, CloseCall r, TelemetryClose, Cancel, Exit 0]"
  using assms(1,2)
  by (cases rule: exit_consider)
     (use assms(3) in \<open>simp_all add: in_main_events startup_plain wiring_plain\<close>)

lemma exit_code_known_factory_error:
  assumes "inv E s" and "exit_status s = Some c"
    and "sql_Open E ''pgx'' (Dsn (cfg E)) = None" and "resolved E = Inl e"
  shows "c = 1"
  using assms(1,2) by (cases rule: exit_consider) (use assms(3,4) in simp_all)

lemma exit_code_known_run:
  assumes "inv E s" and "exit_status s = Some c"
    and "sql_Open E ''pgx'' (Dsn (cfg E)) = None" and "resolved E = Inr r"
    and "\<And>b. Run E r b = Returned x"
  shows "c = (if x = None then 0 else 1)"
  using assms(1,2) by (cases rule: exit_consider) (use assms(3,4,5) in auto)

lemma startup_no_calls: "filter is_runner_call (startup E) = []"
  by (simp add: startup_def)

lemma wiring_no_calls: "filter is_runner_call wiring = []"
  by (simp add: wiring_def)

lemma runner_calls_at_exit:
  assumes "inv E s" and "exit_status s = Some c" and "(MainTask, RunCall r) \<in> set (trace s)"
  shows "\<exists>e. runner_calls s =
               [(MainTask, RunCall r), (MainTask, RunReturn r e), (MainTask, CloseCall r)]
             \<and> c = (if e = None then 0 else 1)"
  using assms(1,2)
proof (cases rule: exit_consider)
  case (fatal e)
  then show ?thesis using assms(3) by (simp add: in_main_events startup_plain)
next
  case (factory_error e)
  then show ?thesis using assms(3) by (simp add: in_main_events startup_plain wiring_plain)
next
  case (run_error r' e b)
  then have "r' = r" using assms(3) by (simp add: in_main_events startup_plain wiring_plain)
  with run_error show ?thesis
    by (simp add: runner_calls_main [OF assms(1)] startup_no_calls wiring_no_calls)
next
  case (clean r' b)
  then have "r' = r" using assms(3) by (simp add: in_main_events startup_plain wiring_plain)
  with clean show ?thesis
    by (simp add: runner_calls_main [OF assms(1)] startup_no_calls wiring_no_calls)
qed

lemma runner_calls_prefix:
  assumes "inv E s"
  shows "\<exists>r e n. runner_calls s =
            take n [(MainTask, RunCall r), (MainTask, RunReturn r e), (MainTask, CloseCall r)]
          \<and> (n \<noteq> 0 \<longrightarrow> resolved E = Inr r)"
proof -
  obtain r where r: "calls_at (main_pc s) \<noteq> 0 \<longrightarrow> resolved E = Inr r \<and> runnerInstance s = Some r"
    and f: "filter is_runner_call (events_of MainTask s) =
               take (calls_at (main_pc s)) [RunCall r, RunReturn r (main_err s), CloseCall r]"
    using main_runner_calls [OF assms] by blast
  have "runner_calls s =
      take (calls_at (main_pc s))
        [(MainTask, RunCall r), (MainTask, RunReturn r (main_err s)), (MainTask, CloseCall r)]"
    by (simp add: runner_calls_main [OF assms] f take_map [symmetric])
  with r show ?thesis by blast
qed

lemma no_runner_without_resolution:
  assumes "inv E s" and "resolved E = Inl e"
  shows "runner_calls s = []"
proof -
  obtain r where r: "calls_at (main_pc s) \<noteq> 0 \<longrightarrow> resolved E = Inr r \<and> runnerInstance s = Some r"
    and f: "filter is_runner_call (events_of MainTask s) =
               take (calls_at (main_pc s)) [RunCall r, RunReturn r (main_err s), CloseCall r]"
    using main_runner_calls [OF assms(1)] by blast
  have "calls_at (main_pc s) = 0" using r assms(2) by auto
  then show ?thesis by (simp add: runner_calls_main [OF assms(1)] f)
qed

lemma exit_code_without_resolution:
  assumes "inv E s" and "resolved E = Inl e" and "exit_status s = Some c"
  shows "c = 1"
  using assms(1,3) by (cases rule: exit_consider) (use assms(2) in simp_all)

lemma exit_by_main:
  assumes "inv E s" and "(t, Exit c) \<in> set (trace s)"
  shows "t = MainTask"
  using other_tasks_plain [OF assms] by blast

lemma main_ignores_server:
  "main_pc (step E MainTask (s\<lparr>server_pc := p, server_err := q\<rparr>)) = main_pc (step E MainTask s)
   \<and> exit_status (step E MainTask (s\<lparr>server_pc := p, server_err := q\<rparr>))
       = exit_status (step E MainTask s)"
  by (cases "main_pc s")
     (simp_all add: step_def emit_def cancel_def os_Exit_def panic_def Let_def
        split: option.splits sum.splits outcome.splits)

lemma server_ignores_cancel:
  "server_pc (step E ServerTask (s\<lparr>cancelled := b\<rparr>)) = server_pc (step E ServerTask s)"
proof (cases "server_pc s")
  case None
  then show ?thesis by (simp add: step_def)
next
  case (Some pc)
  then show ?thesis
    by (cases pc)
       (simp_all add: step_def emit_def cancel_def panic_def
          split: option.splits outcome.splits)
qed

lemma exit_reasons:
  assumes "inv E s" and "exit_status s = Some c"
  shows "(server_pc s = None \<and> main_pc s = L50
            \<and> (\<exists>e. sql_Open E ''pgx'' (Dsn (cfg E)) = Some e))
         \<or> (server_pc s \<noteq> None \<and> main_pc s = L75 \<and> (\<exists>e. resolved E = Inl e))
         \<or> (server_pc s \<noteq> None \<and> main_pc s \<in> {L83, L89}
            \<and> (\<exists>r e. (MainTask, RunReturn r e) \<in> set (trace s)))"
  using assms
proof (cases rule: exit_consider)
  case (fatal e)
  then show ?thesis by simp
next
  case (factory_error e)
  then show ?thesis by simp
next
  case (run_error r e b)
  then have "(MainTask, RunReturn r (Some e)) \<in> set (trace s)"
    by (simp add: in_main_events)
  with run_error show ?thesis by blast
next
  case (clean r b)
  then have "(MainTask, RunReturn r None) \<in> set (trace s)"
    by (simp add: in_main_events)
  with clean show ?thesis by blast
qed

lemma exec_exited: "exit_status s \<noteq> None \<Longrightarrow> exec E rest s = s"
  by (induction rest) (simp_all add: step_def)

lemma start_failed_from_trace:
  assumes "inv E s" and "(ServerTask, StartReturn (Some e)) \<in> set (trace s)"
    and "e \<noteq> ErrServerClosed"
  shows "start_failed s \<and> ListenAndServe E = Returned (Some e)"
proof -
  have sv: "server_inv E s" using assms(1) by (simp add: inv_def)
  have h: "events_of ServerTask s = server_history (server_pc s) (server_err s)"
    using sv by (simp add: server_inv_def)
  have m: "StartReturn (Some e) \<in> set (events_of ServerTask s)"
    using assms(2) by (rule trace_events)
  show ?thesis
  proof (cases "server_pc s")
    case None
    with m h show ?thesis by simp
  next
    case (Some pc)
    show ?thesis
      using m h sv Some assms(3)
      by (cases pc)
         (auto simp: server_inv_def start_failed_def serving_def on_server_error_def
            split: option.splits if_splits)
  qed
qed

lemma step_server_fields:
  assumes "inv E s" and "start_failed s"
  shows "server_err (step E t s) = server_err s"
    and "t \<noteq> ServerTask \<Longrightarrow> server_pc (step E t s) = server_pc s"
    and "exit_status (step E ServerTask s) = None \<Longrightarrow>
           server_remaining (server_pc (step E ServerTask s))
             \<le> server_remaining (server_pc s) - 1"
    and "server_remaining (server_pc (step E t s)) \<le> server_remaining (server_pc s)"
    and "start_failed (step E t s)"
proof -
  have d: "main_data E s" using assms(1) by (rule inv_main_data)
  have ns: "server_pc s \<noteq> None" using assms(2) by (auto simp: start_failed_def)
  have pc: "main_pc s \<noteq> L61" using d ns by (auto simp: main_data_def)
  have ms: "server_err (main_step E (main_pc s) s) = server_err s
            \<and> server_pc (main_step E (main_pc s) s) = server_pc s"
    using pc
    by (cases "main_pc s")
       (simp_all add: cancel_def os_Exit_def panic_def Let_def
          split: option.splits sum.splits outcome.splits)
  have sg: "server_err (signal_step E p s) = server_err s
            \<and> server_pc (signal_step E p s) = server_pc s" for p
    by (cases p) (simp_all add: cancel_def)
  obtain sp e where sp: "server_pc s = Some sp" "sp \<in> {L64, L65, server_done}"
    and e: "server_err s = Some e" "e \<noteq> ErrServerClosed"
    using assms(2) by (auto simp: start_failed_def)
  have sv: "server_err (server_step E sp s) = server_err s
            \<and> server_pc (server_step E sp s) \<in> {Some L65, Some server_done}
            \<and> server_remaining (server_pc (server_step E sp s))
                 \<le> server_remaining (server_pc s) - 1"
    using sp e by (auto simp: cancel_def)
  show "server_err (step E t s) = server_err s"
    using ms sg sv sp by (cases t) (auto simp: step_def split: option.splits)
  show "t \<noteq> ServerTask \<Longrightarrow> server_pc (step E t s) = server_pc s"
    using ms sg by (cases t) (auto simp: step_def split: option.splits)
  show "exit_status (step E ServerTask s) = None \<Longrightarrow>
           server_remaining (server_pc (step E ServerTask s))
             \<le> server_remaining (server_pc s) - 1"
    using sv sp by (auto simp: step_def split: if_splits)
  show "server_remaining (server_pc (step E t s)) \<le> server_remaining (server_pc s)"
    using ms sg sv sp by (cases t) (auto simp: step_def split: option.splits)
  show "start_failed (step E t s)"
    using ms sg sv sp e assms(2)
    by (cases t) (auto simp: step_def start_failed_def split: option.splits)
qed

lemma server_remaining_exec:
  assumes "inv E s" and "start_failed s" and "exit_status (exec E rest s) = None"
  shows "start_failed (exec E rest s)
         \<and> server_remaining (server_pc (exec E rest s))
             \<le> server_remaining (server_pc s) - count_list rest ServerTask"
  using assms
proof (induction rest arbitrary: s)
  case Nil
  then show ?case by simp
next
  case (Cons t ts)
  have i: "inv E (step E t s)" using Cons.prems(1) by (rule inv_step)
  have f: "start_failed (step E t s)" using Cons.prems(1,2) by (rule step_server_fields(5))
  have x: "exit_status (exec E ts (step E t s)) = None" using Cons.prems(3) by simp
  have ih: "start_failed (exec E ts (step E t s))
         \<and> server_remaining (server_pc (exec E ts (step E t s)))
             \<le> server_remaining (server_pc (step E t s)) - count_list ts ServerTask"
    using Cons.IH [OF i f x] .
  have alive: "exit_status (step E t s) = None"
  proof (rule ccontr)
    assume "exit_status (step E t s) \<noteq> None"
    then have "exec E ts (step E t s) = step E t s" by (rule exec_exited)
    with x \<open>exit_status (step E t s) \<noteq> None\<close> show False by simp
  qed
  show ?case
  proof (cases "t = ServerTask")
    case True
    have "server_remaining (server_pc (step E ServerTask s)) \<le> server_remaining (server_pc s) - 1"
      using step_server_fields(3) [OF Cons.prems(1,2)] alive True by simp
    then show ?thesis using ih True by auto
  next
    case False
    have "server_pc (step E t s) = server_pc s"
      using step_server_fields(2) [OF Cons.prems(1,2) False] .
    then show ?thesis using ih False by simp
  qed
qed

lemma cancelled_step: "cancelled s \<Longrightarrow> cancelled (step E t s)"
proof (cases t)
  case MainTask
  assume "cancelled s"
  then show ?thesis
    using MainTask
    by (cases "main_pc s")
       (simp_all add: step_def cancel_def os_Exit_def panic_def Let_def
          split: option.splits sum.splits outcome.splits)
next
  case SignalTask
  assume "cancelled s"
  then show ?thesis
  proof (cases "signal_pc s")
    case None
    with SignalTask \<open>cancelled s\<close> show ?thesis by (simp add: step_def)
  next
    case (Some p)
    with SignalTask \<open>cancelled s\<close> show ?thesis
      by (cases p) (simp_all add: step_def cancel_def)
  qed
next
  case ServerTask
  assume "cancelled s"
  then show ?thesis
  proof (cases "server_pc s")
    case None
    with ServerTask \<open>cancelled s\<close> show ?thesis by (simp add: step_def)
  next
    case (Some p)
    with ServerTask \<open>cancelled s\<close> show ?thesis
      by (cases p)
         (simp_all add: step_def cancel_def panic_def split: option.splits outcome.splits)
  qed
qed

lemma cancelled_exec: "cancelled s \<Longrightarrow> cancelled (exec E rest s)"
  by (induction rest arbitrary: s) (simp_all add: cancelled_step)

lemma start_failed_done:
  assumes "inv E s" and "start_failed s" and "server_remaining (server_pc s) = 0"
  shows "cancelled s \<and> (ServerTask, Cancel) \<in> set (trace s)"
proof -
  have sv: "server_inv E s" using assms(1) by (simp add: inv_def)
  have pc: "server_pc s = Some server_done"
    using assms(2,3) by (auto simp: start_failed_def)
  obtain e where e: "server_err s = Some e" "e \<noteq> ErrServerClosed"
    using assms(2) by (auto simp: start_failed_def)
  have "Cancel \<in> set (events_of ServerTask s)"
    using sv pc e by (simp add: server_inv_def on_server_error_def)
  then have "(ServerTask, Cancel) \<in> set (trace s)"
    by (rule events_trace)
  moreover have "cancelled s"
    using sv pc e by (simp add: server_inv_def)
  ultimately show ?thesis by simp
qed

lemma Run_sees_cancellation:
  assumes "inv E s" and "cancelled s" and "exit_status s = None" and "main_pc s = L78_wait"
    and "resolved E = Inr r" and "Run E r True = Returned x"
  shows "trace (step E MainTask s) = trace s @ [(MainTask, RunReturn r x)]"
proof -
  have "runnerInstance s = Some r"
    using inv_main_data [OF assms(1)] assms(4,5) by (auto simp: main_data_def resolved_def)
  then show ?thesis
    using assms(2,3,4,6) by (simp add: step_def)
qed

lemma trace_step_grows: "x \<in> set (trace s) \<Longrightarrow> x \<in> set (trace (step E t s))"
proof (cases "exit_status s = None")
  case False
  assume "x \<in> set (trace s)"
  with False show ?thesis by (simp add: step_def)
next
  case True
  assume x: "x \<in> set (trace s)"
  show ?thesis
  proof (cases t)
    case MainTask
    with True x show ?thesis
      by (cases "main_pc s")
         (auto simp: step_def cancel_def os_Exit_def panic_def Let_def
            split: option.splits sum.splits outcome.splits)
  next
    case SignalTask
    show ?thesis
    proof (cases "signal_pc s")
      case None
      with SignalTask x show ?thesis by (simp add: step_def)
    next
      case (Some p)
      with SignalTask True x show ?thesis
        by (cases p) (auto simp: step_def cancel_def)
    qed
  next
    case ServerTask
    show ?thesis
    proof (cases "server_pc s")
      case None
      with ServerTask x show ?thesis by (simp add: step_def)
    next
      case (Some p)
      with ServerTask True x show ?thesis
        by (cases p)
           (auto simp: step_def cancel_def panic_def split: option.splits outcome.splits)
    qed
  qed
qed

lemma blocked_or_cancelled_step:
  assumes "inv E s" and "resolved E = Inr r" and "Run E r False = Pending" and "\<not> signal E"
    and "blocked_or_cancelled s"
  shows "blocked_or_cancelled (step E t s)"
  using assms(5) unfolding blocked_or_cancelled_def
proof
  assume c: "cancelled s \<and> (ServerTask, Cancel) \<in> set (trace s)"
  then show "(main_pc (step E t s) = L78_wait \<and> exit_status (step E t s) = None
       \<and> \<not> cancelled (step E t s) \<and> start_failed (step E t s))
     \<or> (cancelled (step E t s) \<and> (ServerTask, Cancel) \<in> set (trace (step E t s)))"
    using cancelled_step [of s E t] trace_step_grows [of "(ServerTask, Cancel)" s E t] by simp
next
  assume b: "main_pc s = L78_wait \<and> exit_status s = None \<and> \<not> cancelled s \<and> start_failed s"
  have ri: "runnerInstance s = Some r"
    using inv_main_data [OF assms(1)] b assms(2) by (auto simp: main_data_def resolved_def)
  have sf: "start_failed (step E t s)"
    using assms(1) b by (simp add: step_server_fields(5))
  show "(main_pc (step E t s) = L78_wait \<and> exit_status (step E t s) = None
       \<and> \<not> cancelled (step E t s) \<and> start_failed (step E t s))
     \<or> (cancelled (step E t s) \<and> (ServerTask, Cancel) \<in> set (trace (step E t s)))"
  proof (cases t)
    case MainTask
    then have "step E t s = s"
      using b ri assms(3) by (simp add: step_def)
    with b show ?thesis by simp
  next
    case SignalTask
    have "signal_pc s = None \<or> signal_pc s = Some L34"
    proof (cases "signal_pc s")
      case None
      then show ?thesis by simp
    next
      case (Some p)
      have "signal_inv E s" using assms(1) by (simp add: inv_def)
      with Some assms(4) show ?thesis
        by (cases p) (auto simp: signal_inv_def)
    qed
    then have "step E t s = s"
      using SignalTask assms(4) by (auto simp: step_def)
    with b show ?thesis by simp
  next
    case ServerTask
    obtain sp e where sp: "server_pc s = Some sp" "sp \<in> {L64, L65, server_done}"
      and e: "server_err s = Some e" "e \<noteq> ErrServerClosed"
      using b by (auto simp: start_failed_def)
    have sv: "server_inv E s" using assms(1) by (simp add: inv_def)
    have nd: "sp \<noteq> server_done"
      using sv sp e b by (auto simp: server_inv_def)
    show ?thesis
      using ServerTask sp e b nd sf
      by (auto simp: step_def cancel_def)
  qed
qed

lemma blocked_or_cancelled_exec:
  assumes "inv E s" and "resolved E = Inr r" and "Run E r False = Pending" and "\<not> signal E"
    and "blocked_or_cancelled s"
  shows "blocked_or_cancelled (exec E rest s)"
  using assms(1,5)
proof (induction rest arbitrary: s)
  case Nil
  then show ?case by simp
next
  case (Cons t ts)
  have "inv E (step E t s)" using Cons.prems(1) by (rule inv_step)
  moreover have "blocked_or_cancelled (step E t s)"
    using Cons.prems(1) assms(2,3,4) Cons.prems(2) by (rule blocked_or_cancelled_step)
  ultimately show ?case using Cons.IH by simp
qed

lemma server_remaining_le: "server_remaining p \<le> 2"
  by (cases p rule: server_remaining.cases) simp_all

lemma port_taken_facts:
  "port_taken_run = exec port_taken_env (replicate 16 MainTask @ replicate 3 ServerTask) init"
  "(ServerTask, StartReturn (Some (ErrorString ''listen tcp :6060: bind: address already in use'')))
     \<in> set (trace port_taken_run)"
  "\<not> cancelled port_taken_run"
  "main_pc port_taken_run = L78_wait"
  "exit_status port_taken_run = None"
  "exit_status (exec port_taken_env [ServerTask, ServerTask] port_taken_run) = None"
  "resolved port_taken_env = Inr WebRunner"
  "Run port_taken_env WebRunner True = Returned None"
  "Run port_taken_env WebRunner False = Pending"
  "\<not> signal port_taken_env"
  unfolding port_taken_run_def by code_simp+

lemma count_21: "21 \<le> count_list (replicate 21 MainTask) MainTask"
  by code_simp

lemma clean_run_facts:
  "sql_Open example_env ''pgx'' (Dsn (cfg example_env)) = None"
  "resolved example_env = Inr FileRunner"
  "Run example_env FileRunner False = Returned None"
  "Run example_env FileRunner True = Returned None"
  "(MainTask, RunReturn FileRunner None) \<in> set (trace clean_run)"
  "(MainTask, RunCall FileRunner) \<in> set (trace clean_run)"
  "Run_returns example_env"
  unfolding clean_run_def by code_simp+

lemma failed_run_facts:
  "sql_Open run_fails_env ''pgx'' (Dsn (cfg run_fails_env)) = None"
  "resolved run_fails_env = Inr FileRunner"
  "Run run_fails_env FileRunner False = Returned (Some (ErrorString ''scrape failed''))"
  "Run run_fails_env FileRunner True = Returned (Some (ErrorString ''scrape failed''))"
  "(MainTask, RunReturn FileRunner (Some (ErrorString ''scrape failed''))) \<in> set (trace failed_run)"
  "(MainTask, RunCall FileRunner) \<in> set (trace failed_run)"
  "Run_returns run_fails_env"
  unfolding failed_run_def by code_simp+

lemma bad_mode_run_facts:
  "sql_Open bad_mode_env ''pgx'' (Dsn (cfg bad_mode_env)) = None"
  "resolved bad_mode_env = Inl (WrapError ErrInvalidRunMode ''invalid run mode: 42'')"
  "runnerFactory (modes bad_mode_env) (constructors bad_mode_env) (cfg bad_mode_env)
     = Inl (WrapError ErrInvalidRunMode ''invalid run mode: 42'')"
  "(MainTask, Factory) \<in> set (trace bad_mode_run)"
  "Run_returns bad_mode_env"
  "distinct (recognized (modes bad_mode_env))"
  "RunMode (cfg bad_mode_env) \<notin> set (recognized (modes bad_mode_env))"
  "format_d (RunMode (cfg bad_mode_env)) = ''42''"
  unfolding bad_mode_run_def by code_simp+

lemma signalled_run_facts:
  "signalled_run = exec web_env signalled_schedule init"
  "exit_status signalled_run = Some 0"
  "server_pc signalled_run = Some L63_wait"
  "signal_pc signalled_run = Some signal_done"
  "(SignalTask, Cancel) \<in> set (trace signalled_run)"
  "(MainTask, RunReturn WebRunner None) \<in> set (trace signalled_run)"
  "main_pc signalled_run = L89"
  unfolding signalled_run_def signalled_schedule_def by code_simp+

lemma trace_exec_grows: "x \<in> set (trace s) \<Longrightarrow> x \<in> set (trace (exec E rest s))"
  by (induction rest arbitrary: s) (simp_all add: trace_step_grows)

lemma main_step_after_Run:
  assumes "main_data E s" and "exit_status s = None" and "2 \<le> calls_at (main_pc s)"
  shows "2 \<le> calls_at (main_pc (main_step E (main_pc s) s))"
  using assms
  by (cases "main_pc s")
     (auto simp: main_data_def cancel_def os_Exit_def panic_def split: option.splits)

lemma unblocked_step:
  assumes "inv E s" and "unblocked E s"
  shows "unblocked E (step E t s)"
proof (cases "2 \<le> calls_at (main_pc s)")
  case True
  have "2 \<le> calls_at (main_pc (step E t s))"
  proof (cases "t = MainTask")
    case False
    then show ?thesis using step_other_main [OF assms(1) False] True by simp
  next
    case t: True
    show ?thesis
    proof (cases "exit_status s = None")
      case False
      then show ?thesis using True by (simp add: step_def)
    next
      case ex: True
      show ?thesis
        using main_step_after_Run [OF inv_main_data [OF assms(1)] ex True] t ex
        by (simp add: step_def)
    qed
  qed
  then show ?thesis by (simp add: unblocked_def)
next
  case False
  then have u: "case resolved E of Inl e \<Rightarrow> True
        | Inr r \<Rightarrow> Run E r True \<noteq> Pending \<and> (cancelled s \<or> Run E r False \<noteq> Pending)"
    using assms(2) by (simp add: unblocked_def)
  show ?thesis
  proof (cases "resolved E")
    case (Inl e)
    then show ?thesis by (simp add: unblocked_def)
  next
    case (Inr r)
    then show ?thesis
      using u cancelled_step [of s E t] by (auto simp: unblocked_def)
  qed
qed

lemma unblocked_exec: "inv E s \<Longrightarrow> unblocked E s \<Longrightarrow> unblocked E (exec E rest s)"
  by (induction rest arbitrary: s) (simp_all add: inv_step unblocked_step)

lemma unblocked_poll:
  assumes "inv E s" and "unblocked E s" and "main_pc s = L78_wait"
    and "runnerInstance s = Some r"
  shows "Run E r (cancelled s) \<noteq> Pending"
proof -
  have "resolved E = Inr r"
    using inv_main_data [OF assms(1)] assms(3,4) by (auto simp: main_data_def resolved_def)
  then show ?thesis
    using assms(2,3) by (cases "cancelled s") (auto simp: unblocked_def)
qed

lemma todo_main_unblocked:
  assumes "inv E s" and "unblocked E s" and "0 < todo s"
  shows "todo (step E MainTask s) < todo s"
proof -
  have ex: "exit_status s = None"
    using assms(3) by (simp add: todo_def split: if_splits)
  have d: "main_data E s"
    using assms(1) by (rule inv_main_data)
  show ?thesis
  proof (cases "main_pc s = L78_wait")
    case True
    then obtain r where r: "runnerInstance s = Some r"
      using d by (auto simp: main_data_def)
    have "Run E r (cancelled s) \<noteq> Pending"
      using assms(1,2) True r by (rule unblocked_poll)
    then show ?thesis
      using True r ex
      by (cases "Run E r (cancelled s)") (auto simp: step_def todo_def)
  next
    case False
    then show ?thesis
      using ex d
      by (cases "main_pc s")
         (auto simp: step_def todo_def main_data_def cancel_def os_Exit_def panic_def
            Let_def remaining_pos split: option.splits sum.splits)
  qed
qed

lemma todo_exec_unblocked:
  "inv E s \<Longrightarrow> unblocked E s \<Longrightarrow> todo (exec E rest s) \<le> todo s - count_list rest MainTask"
proof (induction rest arbitrary: s)
  case Nil
  then show ?case by simp
next
  case (Cons t ts)
  have i: "inv E (step E t s)" using Cons.prems(1) by (rule inv_step)
  have u: "unblocked E (step E t s)" using Cons.prems by (rule unblocked_step)
  have ih: "todo (exec E ts (step E t s)) \<le> todo (step E t s) - count_list ts MainTask"
    using Cons.IH [OF i u] .
  show ?case
  proof (cases "t = MainTask")
    case False
    then show ?thesis using ih todo_other [OF Cons.prems(1) False] by simp
  next
    case True
    show ?thesis
    proof (cases "0 < todo s")
      case True
      then have "todo (step E MainTask s) < todo s"
        using todo_main_unblocked [OF Cons.prems] by simp
      then show ?thesis using ih \<open>t = MainTask\<close> by simp
    next
      case False
      then have "exit_status s \<noteq> None"
        using remaining_pos [of "main_pc s"] by (auto simp: todo_def split: if_splits)
      then have "step E t s = s" by (simp add: step_def)
      then show ?thesis using ih False by simp
    qed
  qed
qed

lemma todo_zero_exited: "todo s = 0 \<Longrightarrow> exit_status s \<noteq> None"
  using remaining_pos [of "main_pc s"] by (auto simp: todo_def split: if_splits)

lemma todo_le_21: "todo s \<le> 21"
  by (cases "main_pc s") (simp_all add: todo_def)

lemma todo_after_Run: "2 \<le> calls_at (main_pc s) \<Longrightarrow> todo s \<le> 5"
  by (cases "main_pc s") (simp_all add: todo_def)

lemma todo_after_RunCall: "1 \<le> calls_at (main_pc s) \<Longrightarrow> todo s \<le> 6"
  by (cases "main_pc s") (simp_all add: todo_def)

lemma exits_when_unblocked:
  assumes "inv E s" and "unblocked E s" and "todo s \<le> count_list rest MainTask"
  shows "exit_status (exec E rest s) \<noteq> None"
proof -
  have "todo (exec E rest s) \<le> todo s - count_list rest MainTask"
    using assms(1,2) by (rule todo_exec_unblocked)
  then have "todo (exec E rest s) = 0" using assms(3) by simp
  then show ?thesis by (rule todo_zero_exited)
qed

lemma calls_at_from_trace:
  assumes "inv E s"
  shows "(MainTask, RunCall r) \<in> set (trace s) \<Longrightarrow>
           1 \<le> calls_at (main_pc s) \<and> resolved E = Inr r"
    and "(MainTask, RunReturn r x) \<in> set (trace s) \<Longrightarrow>
           2 \<le> calls_at (main_pc s) \<and> resolved E = Inr r \<and> main_err s = x"
    and "(MainTask, CloseCall r) \<in> set (trace s) \<Longrightarrow>
           calls_at (main_pc s) = 3 \<and> resolved E = Inr r"
proof -
  obtain r' where r': "calls_at (main_pc s) \<noteq> 0 \<longrightarrow> resolved E = Inr r' \<and> runnerInstance s = Some r'"
    and f: "filter is_runner_call (events_of MainTask s) =
               take (calls_at (main_pc s)) [RunCall r', RunReturn r' (main_err s), CloseCall r']"
    using main_runner_calls [OF assms] by blast
  have n: "calls_at (main_pc s) \<le> 3"
    by (cases "main_pc s") simp_all
  have mem: "e \<in> set (take (calls_at (main_pc s)) [RunCall r', RunReturn r' (main_err s), CloseCall r'])"
    if "(MainTask, e) \<in> set (trace s)" and "is_runner_call e" for e
  proof -
    have "e \<in> set (events_of MainTask s)" using that(1) by (rule trace_events)
    then have "e \<in> set (filter is_runner_call (events_of MainTask s))" using that(2) by simp
    then show ?thesis by (simp only: f)
  qed
  have cases_n: "calls_at (main_pc s) = 0 \<or> calls_at (main_pc s) = 1 \<or> calls_at (main_pc s) = 2
      \<or> calls_at (main_pc s) = 3"
    using n by arith
  show "(MainTask, RunCall r) \<in> set (trace s) \<Longrightarrow>
           1 \<le> calls_at (main_pc s) \<and> resolved E = Inr r"
    using mem [of "RunCall r"] r' cases_n by (auto simp: numeral_2_eq_2 numeral_3_eq_3)
  show "(MainTask, RunReturn r x) \<in> set (trace s) \<Longrightarrow>
           2 \<le> calls_at (main_pc s) \<and> resolved E = Inr r \<and> main_err s = x"
    using mem [of "RunReturn r x"] r' cases_n by (auto simp: numeral_2_eq_2 numeral_3_eq_3)
  show "(MainTask, CloseCall r) \<in> set (trace s) \<Longrightarrow>
           calls_at (main_pc s) = 3 \<and> resolved E = Inr r"
    using mem [of "CloseCall r"] r' cases_n by (auto simp: numeral_2_eq_2 numeral_3_eq_3)
qed

lemma exit_after_Run_returned:
  assumes "inv E s" and "(MainTask, RunReturn r x) \<in> set (trace s)"
    and "5 \<le> count_list rest MainTask"
  shows "exit_status (exec E rest s) = Some (if x = None then 0 else 1)"
proof -
  have c: "2 \<le> calls_at (main_pc s)"
    using calls_at_from_trace(2) [OF assms(1,2)] by simp
  then have u: "unblocked E s" by (simp add: unblocked_def)
  have "todo s \<le> count_list rest MainTask"
    using todo_after_Run [OF c] assms(3) by simp
  with assms(1) u have "exit_status (exec E rest s) \<noteq> None"
    by (rule exits_when_unblocked)
  then obtain c' where c': "exit_status (exec E rest s) = Some c'" by blast
  have i': "inv E (exec E rest s)" using assms(1) by (rule inv_exec)
  have t': "(MainTask, RunReturn r x) \<in> set (trace (exec E rest s))"
    using assms(2) by (rule trace_exec_grows)
  show ?thesis
  proof (cases x)
    case None
    then show ?thesis using exit_after_run_ok [OF i' c'] t' c' by simp
  next
    case (Some e)
    then show ?thesis using exit_after_run_error [OF i' c'] t' c' by simp
  qed
qed

lemma runner_calls_at:
  assumes "inv E s"
  shows "\<exists>r. (calls_at (main_pc s) \<noteq> 0 \<longrightarrow> resolved E = Inr r)
           \<and> runner_calls s =
               take (calls_at (main_pc s))
                 [(MainTask, RunCall r), (MainTask, RunReturn r (main_err s)),
                  (MainTask, CloseCall r)]"
proof -
  obtain r where r: "calls_at (main_pc s) \<noteq> 0 \<longrightarrow> resolved E = Inr r \<and> runnerInstance s = Some r"
    and f: "filter is_runner_call (events_of MainTask s) =
               take (calls_at (main_pc s)) [RunCall r, RunReturn r (main_err s), CloseCall r]"
    using main_runner_calls [OF assms] by blast
  have "runner_calls s =
      take (calls_at (main_pc s))
        [(MainTask, RunCall r), (MainTask, RunReturn r (main_err s)), (MainTask, CloseCall r)]"
    by (simp add: runner_calls_main [OF assms] f take_map [symmetric])
  with r show ?thesis by blast
qed

lemma until_close_main:
  assumes "inv E s" and "unblocked E s" and "1 \<le> calls_at (main_pc s)"
  shows "until_close (main_pc (step E MainTask s)) \<le> until_close (main_pc s) - 1
         \<and> 1 \<le> calls_at (main_pc (step E MainTask s))"
proof (cases "exit_status s = None")
  case False
  have d: "main_data E s" using assms(1) by (rule inv_main_data)
  from False obtain c where "exit_status s = Some c" by blast
  then have "main_pc s \<in> {L50, L75, L83, L89}"
    using exit_pcs [OF d] by auto
  then show ?thesis using False assms(3) by (auto simp: step_def)
next
  case ex: True
  have d: "main_data E s" using assms(1) by (rule inv_main_data)
  show ?thesis
  proof (cases "main_pc s = L78_wait")
    case True
    then obtain r where r: "runnerInstance s = Some r"
      using d by (auto simp: main_data_def)
    have "Run E r (cancelled s) \<noteq> Pending"
      using assms(1,2) True r by (rule unblocked_poll)
    then show ?thesis
      using True r ex by (cases "Run E r (cancelled s)") (auto simp: step_def)
  next
    case False
    then show ?thesis
      using ex d assms(3)
      by (cases "main_pc s")
         (auto simp: step_def main_data_def cancel_def os_Exit_def panic_def
            split: option.splits)
  qed
qed

lemma until_close_exec:
  "inv E s \<Longrightarrow> unblocked E s \<Longrightarrow> 1 \<le> calls_at (main_pc s) \<Longrightarrow>
   until_close (main_pc (exec E rest s)) \<le> until_close (main_pc s) - count_list rest MainTask
   \<and> 1 \<le> calls_at (main_pc (exec E rest s))"
proof (induction rest arbitrary: s)
  case Nil
  then show ?case by simp
next
  case (Cons t ts)
  have i: "inv E (step E t s)" using Cons.prems(1) by (rule inv_step)
  have u: "unblocked E (step E t s)" using Cons.prems(1,2) by (rule unblocked_step)
  show ?case
  proof (cases "t = MainTask")
    case True
    have m: "until_close (main_pc (step E MainTask s)) \<le> until_close (main_pc s) - 1
         \<and> 1 \<le> calls_at (main_pc (step E MainTask s))"
      using Cons.prems by (rule until_close_main)
    then have c: "1 \<le> calls_at (main_pc (step E t s))" using True by simp
    show ?thesis using Cons.IH [OF i u c] m True by auto
  next
    case False
    have p: "main_pc (step E t s) = main_pc s"
      using step_other_main [OF Cons.prems(1) False] by simp
    then have c: "1 \<le> calls_at (main_pc (step E t s))" using Cons.prems(3) by simp
    show ?thesis using Cons.IH [OF i u c] p False by simp
  qed
qed

lemma until_close_le: "1 \<le> calls_at pc \<Longrightarrow> until_close pc \<le> 3"
  and until_close_le_2: "2 \<le> calls_at pc \<Longrightarrow> until_close pc \<le> 2"
  and until_close_zero: "1 \<le> calls_at pc \<Longrightarrow> until_close pc = 0 \<Longrightarrow> calls_at pc = 3"
  by (cases pc; simp)+

lemma Close_called_when_unblocked:
  assumes "inv E s" and "unblocked E s" and "(MainTask, RunCall r) \<in> set (trace s)"
    and "until_close (main_pc s) \<le> count_list rest MainTask"
  shows "runner_calls (exec E rest s) =
           [(MainTask, RunCall r), (MainTask, RunReturn r (main_err (exec E rest s))),
            (MainTask, CloseCall r)]"
proof -
  let ?s = "exec E rest s"
  have c: "1 \<le> calls_at (main_pc s)"
    using calls_at_from_trace(1) [OF assms(1,3)] by simp
  have "until_close (main_pc ?s) \<le> until_close (main_pc s) - count_list rest MainTask
   \<and> 1 \<le> calls_at (main_pc ?s)"
    using assms(1,2) c by (rule until_close_exec)
  then have "calls_at (main_pc ?s) = 3"
    using assms(4) until_close_zero [of "main_pc ?s"] by simp
  moreover have i': "inv E ?s" using assms(1) by (rule inv_exec)
  moreover have "resolved E = Inr r"
    using calls_at_from_trace(1) [OF assms(1,3)] by simp
  ultimately show ?thesis
    using runner_calls_at [OF i'] by auto
qed

lemma Close_after_Run_returned:
  assumes "inv E s" and "(MainTask, RunReturn r x) \<in> set (trace s)"
    and "2 \<le> count_list rest MainTask"
  shows "runner_calls (exec E rest s) =
           [(MainTask, RunCall r), (MainTask, RunReturn r x), (MainTask, CloseCall r)]"
proof -
  let ?s = "exec E rest s"
  have c: "2 \<le> calls_at (main_pc s)" and rs: "resolved E = Inr r"
    using calls_at_from_trace(2) [OF assms(1,2)] by simp_all
  have u: "unblocked E s" using c by (simp add: unblocked_def)
  have c1: "1 \<le> calls_at (main_pc s)" using c by simp
  have "until_close (main_pc ?s) \<le> until_close (main_pc s) - count_list rest MainTask
   \<and> 1 \<le> calls_at (main_pc ?s)"
    using assms(1) u c1 by (rule until_close_exec)
  then have n: "calls_at (main_pc ?s) = 3"
    using assms(3) until_close_le_2 [OF c] until_close_zero [of "main_pc ?s"] by simp
  have i': "inv E ?s" using assms(1) by (rule inv_exec)
  have "(MainTask, RunReturn r x) \<in> set (trace ?s)"
    using assms(2) by (rule trace_exec_grows)
  then have "main_err ?s = x"
    using calls_at_from_trace(2) [OF i'] by simp
  then show ?thesis
    using runner_calls_at [OF i'] n rs by auto
qed

lemma main_step_progress:
  assumes "inv E s" and "exit_status s = None"
    and "\<not> (main_pc s = L78_wait \<and> (\<exists>r. resolved E = Inr r \<and> Run E r (cancelled s) = Pending))"
  shows "exit_status (step E MainTask s) \<noteq> None
         \<or> remaining (main_pc (step E MainTask s)) < remaining (main_pc s)"
proof -
  have d: "main_data E s" using assms(1) by (rule inv_main_data)
  show ?thesis
  proof (cases "main_pc s = L78_wait")
    case True
    then obtain r where r: "runnerInstance s = Some r" "resolved E = Inr r"
      using d by (auto simp: main_data_def resolved_def)
    then have "Run E r (cancelled s) \<noteq> Pending" using assms(3) True by blast
    then show ?thesis
      using True r assms(2) by (cases "Run E r (cancelled s)") (auto simp: step_def)
  next
    case False
    then show ?thesis
      using assms(2) d
      by (cases "main_pc s")
         (auto simp: step_def main_data_def cancel_def os_Exit_def panic_def
            Let_def split: option.splits sum.splits)
  qed
qed

lemma count_main:
  "5 \<le> count_list (replicate 5 MainTask) MainTask"
  "2 \<le> count_list [MainTask, ServerTask, MainTask] MainTask"
  "3 \<le> count_list [MainTask, MainTask, MainTask] MainTask"
  by code_simp+

lemma cancelled_return_facts:
  "cancelled_return_run =
     exec port_taken_env (replicate 16 MainTask @ replicate 5 ServerTask @ [MainTask]) init"
  "(MainTask, RunReturn WebRunner None) \<in> set (trace cancelled_return_run)"
  "exit_status cancelled_return_run = None"
  "\<not> Run_returns port_taken_env"
  "runner_calls cancelled_return_run =
     [(MainTask, RunCall WebRunner), (MainTask, RunReturn WebRunner None)]"
  unfolding cancelled_return_run_def by code_simp+

lemma cancelled_wait_facts:
  "cancelled_wait_run =
     exec port_taken_env (replicate 16 MainTask @ replicate 5 ServerTask) init"
  "(MainTask, RunCall WebRunner) \<in> set (trace cancelled_wait_run)"
  "cancelled cancelled_wait_run"
  "exit_status cancelled_wait_run = None"
  "main_pc cancelled_wait_run = L78_wait"
  "Run port_taken_env WebRunner (cancelled cancelled_wait_run) \<noteq> Pending"
  "runner_calls cancelled_wait_run = [(MainTask, RunCall WebRunner)]"
  "resolved port_taken_env = Inr WebRunner"
  "Run port_taken_env WebRunner True \<noteq> Pending"
  "Run port_taken_env WebRunner False = Pending"
  "remaining (main_pc cancelled_wait_run) = 6"
  "exit_status (step port_taken_env MainTask cancelled_wait_run) = None"
  unfolding cancelled_wait_run_def by code_simp+

section \<open>Claims about the process\<close>

text \<open>
  C3. In every execution (every schedule of the three tasks), a process that has exited
  has status 0 or 1, and the status is 0 exactly when \<^verbatim>\<open>Run\<close> on the resolved runner
  has returned without error. When the factory was called and failed, the process exits
  with 1 after cancel, the error on stderr and the closing of the telemetry sink; when
  \<^verbatim>\<open>Run\<close> returned an error, it exits with 1 after the error on stderr, \<^verbatim>\<open>Close\<close> on
  the runner, the closing of the telemetry sink and cancel; when \<^verbatim>\<open>Run\<close> returned nil,
  it exits with 0 after \<^verbatim>\<open>Close\<close>, the closing of the telemetry sink and cancel. And the
  process does exit. From any reachable state in which \<^verbatim>\<open>Run\<close> has returned, be it on its
  own or because the context was cancelled, five more steps of \<^verbatim>\<open>main\<close> under any
  schedule end the process, with 0 if \<^verbatim>\<open>Run\<close> returned nil and 1 otherwise. From any
  reachable state, 21 more steps of \<^verbatim>\<open>main\<close> end the process when the factory fails, or
  when the runner returns once the context is cancelled and either the context is cancelled
  already or the runner returns without that. Every step of \<^verbatim>\<open>main\<close> that is not a wait
  in a \<^verbatim>\<open>Run\<close> still pending brings it closer to the exit or exits.
\<close>

theorem exit_status_follows_Run:
  assumes "s = exec E sched init"
  shows "(\<forall>c. exit_status s = Some c \<longrightarrow>
            (c = 0 \<or> c = 1)
            \<and> (c = 0 \<longleftrightarrow> (\<exists>r. (MainTask, RunReturn r None) \<in> set (trace s))))
       \<and> (\<forall>c e. exit_status s = Some c \<and> (MainTask, Factory) \<in> set (trace s)
               \<and> resolved E = Inl e \<longrightarrow>
            c = 1 \<and> events_of MainTask s =
              startup E @ wiring @
              [Cancel, StderrWrite (Error e @ [CHR 0x0A]), TelemetryClose, Exit 1])
       \<and> (\<forall>c r e. exit_status s = Some c \<and> (MainTask, RunReturn r (Some e)) \<in> set (trace s) \<longrightarrow>
            c = 1 \<and> events_of MainTask s =
              startup E @ wiring @
              [RunCall r, RunReturn r (Some e), StderrWrite (Error e @ [CHR 0x0A]),
               CloseCall r, TelemetryClose, Cancel, Exit 1])
       \<and> (\<forall>c r. exit_status s = Some c \<and> (MainTask, RunReturn r None) \<in> set (trace s) \<longrightarrow>
            c = 0 \<and> events_of MainTask s =
              startup E @ wiring @
              [RunCall r, RunReturn r None, CloseCall r, TelemetryClose, Cancel, Exit 0])
       \<and> (Run_returns E \<and> 21 \<le> count_list sched MainTask \<longrightarrow> exit_status s \<noteq> None)
       \<and> (\<forall>e. 21 \<le> count_list sched MainTask
               \<and> sql_Open E ''pgx'' (Dsn (cfg E)) = None \<and> resolved E = Inl e \<longrightarrow>
            exit_status s = Some 1)
       \<and> (\<forall>r x. 21 \<le> count_list sched MainTask
               \<and> sql_Open E ''pgx'' (Dsn (cfg E)) = None \<and> resolved E = Inr r
               \<and> Run E r False = Returned x \<and> Run E r True = Returned x \<longrightarrow>
            exit_status s = Some (if x = None then 0 else 1))
       \<and> (\<forall>rest r x. (MainTask, RunReturn r x) \<in> set (trace s)
               \<and> 5 \<le> count_list rest MainTask \<longrightarrow>
            exit_status (exec E rest s) = Some (if x = None then 0 else 1))
       \<and> (\<forall>rest. 21 \<le> count_list rest MainTask
               \<and> (case resolved E of
                     Inl e \<Rightarrow> True
                   | Inr r \<Rightarrow> Run E r True \<noteq> Pending
                             \<and> (cancelled s \<or> Run E r False \<noteq> Pending)) \<longrightarrow>
            exit_status (exec E rest s) \<noteq> None)
       \<and> (exit_status s = None
            \<and> \<not> (main_pc s = L78_wait
                   \<and> (\<exists>r. resolved E = Inr r \<and> Run E r (cancelled s) = Pending)) \<longrightarrow>
            exit_status (step E MainTask s) \<noteq> None
            \<or> remaining (main_pc (step E MainTask s)) < remaining (main_pc s))"
proof -
  have i: "inv E s"
    unfolding assms by (rule inv_reachable)
  have 5: "exit_status s \<noteq> None" if "Run_returns E" and "21 \<le> count_list sched MainTask"
    unfolding assms using that by (rule exits_eventually)
  have 6: "exit_status s = Some 1"
    if a: "21 \<le> count_list sched MainTask"
      and b: "sql_Open E ''pgx'' (Dsn (cfg E)) = None" "resolved E = Inl e" for e
  proof -
    have rr: "Run_returns E" using b(2) by (simp add: Run_returns_def)
    from 5 [OF rr a] obtain c where c: "exit_status s = Some c" by blast
    show ?thesis using exit_code_known_factory_error [OF i c b] c by simp
  qed
  have 7: "exit_status s = Some (if x = None then 0 else 1)"
    if a: "21 \<le> count_list sched MainTask"
      and b: "sql_Open E ''pgx'' (Dsn (cfg E)) = None" "resolved E = Inr r"
      and r: "Run E r False = Returned x" "Run E r True = Returned x"
    for r x
  proof -
    have rr: "Run_returns E" using b(2) r by (simp add: Run_returns_def)
    from 5 [OF rr a] obtain c where c: "exit_status s = Some c" by blast
    have rb: "Run E r d = Returned x" for d using r by (cases d) simp_all
    show ?thesis using exit_code_known_run [OF i c b rb] c by simp
  qed
  have 9: "exit_status (exec E rest s) \<noteq> None"
    if a: "21 \<le> count_list rest MainTask"
      and b: "case resolved E of
                     Inl e \<Rightarrow> True
                   | Inr r \<Rightarrow> Run E r True \<noteq> Pending
                             \<and> (cancelled s \<or> Run E r False \<noteq> Pending)" for rest
  proof -
    have u: "unblocked E s" using b by (simp add: unblocked_def)
    have "todo s \<le> count_list rest MainTask" using todo_le_21 [of s] a by simp
    with i u show ?thesis by (rule exits_when_unblocked)
  qed
  show ?thesis
  proof (intro conjI allI impI)
    fix c assume "exit_status s = Some c"
    then show "c = 0 \<or> c = 1"
      and "c = 0 \<longleftrightarrow> (\<exists>r. (MainTask, RunReturn r None) \<in> set (trace s))"
      using exit_code_iff [OF i] by blast+
  next
    fix c e
    assume "exit_status s = Some c \<and> (MainTask, Factory) \<in> set (trace s) \<and> resolved E = Inl e"
    then show "c = 1" and "events_of MainTask s =
              startup E @ wiring @
              [Cancel, StderrWrite (Error e @ [CHR 0x0A]), TelemetryClose, Exit 1]"
      using exit_after_factory_error [OF i, of c e] by blast+
  next
    fix c r e
    assume "exit_status s = Some c \<and> (MainTask, RunReturn r (Some e)) \<in> set (trace s)"
    then show "c = 1" and "events_of MainTask s =
              startup E @ wiring @
              [RunCall r, RunReturn r (Some e), StderrWrite (Error e @ [CHR 0x0A]),
               CloseCall r, TelemetryClose, Cancel, Exit 1]"
      using exit_after_run_error [OF i, of c r e] by blast+
  next
    fix c r
    assume "exit_status s = Some c \<and> (MainTask, RunReturn r None) \<in> set (trace s)"
    then show "c = 0" and "events_of MainTask s =
              startup E @ wiring @
              [RunCall r, RunReturn r None, CloseCall r, TelemetryClose, Cancel, Exit 0]"
      using exit_after_run_ok [OF i, of c r] by blast+
  next
    assume "Run_returns E \<and> 21 \<le> count_list sched MainTask"
    then show "exit_status s \<noteq> None" using 5 by blast
  next
    fix e
    assume "21 \<le> count_list sched MainTask
               \<and> sql_Open E ''pgx'' (Dsn (cfg E)) = None \<and> resolved E = Inl e"
    then show "exit_status s = Some 1" using 6 by blast
  next
    fix r x
    assume "21 \<le> count_list sched MainTask
               \<and> sql_Open E ''pgx'' (Dsn (cfg E)) = None \<and> resolved E = Inr r
               \<and> Run E r False = Returned x \<and> Run E r True = Returned x"
    then show "exit_status s = Some (if x = None then 0 else 1)" using 7 by blast
  next
    fix rest r x
    assume "(MainTask, RunReturn r x) \<in> set (trace s) \<and> 5 \<le> count_list rest MainTask"
    then show "exit_status (exec E rest s) = Some (if x = None then 0 else 1)"
      using exit_after_Run_returned [OF i] by blast
  next
    fix rest
    assume "21 \<le> count_list rest MainTask
               \<and> (case resolved E of
                     Inl e \<Rightarrow> True
                   | Inr r \<Rightarrow> Run E r True \<noteq> Pending
                             \<and> (cancelled s \<or> Run E r False \<noteq> Pending))"
    then show "exit_status (exec E rest s) \<noteq> None" using 9 by blast
  next
    assume "exit_status s = None
            \<and> \<not> (main_pc s = L78_wait
                   \<and> (\<exists>r. resolved E = Inr r \<and> Run E r (cancelled s) = Pending))"
    then show "exit_status (step E MainTask s) \<noteq> None
            \<or> remaining (main_pc (step E MainTask s)) < remaining (main_pc s)"
      using main_step_progress [OF i] by blast
  qed
qed

theorem exit_status_follows_Run_witness:
  "clean_run = exec example_env (replicate 21 MainTask) init
   \<and> exit_status clean_run = Some 0
   \<and> (MainTask, RunReturn FileRunner None) \<in> set (trace clean_run)
   \<and> failed_run = exec run_fails_env (replicate 21 MainTask) init
   \<and> exit_status failed_run = Some 1
   \<and> events_of MainTask failed_run =
        startup run_fails_env @ wiring @
        [RunCall FileRunner, RunReturn FileRunner (Some (ErrorString ''scrape failed'')),
         StderrWrite (Error (ErrorString ''scrape failed'') @ [CHR 0x0A]),
         CloseCall FileRunner, TelemetryClose, Cancel, Exit 1]
   \<and> bad_mode_run = exec bad_mode_env (replicate 21 MainTask) init
   \<and> exit_status bad_mode_run = Some 1
   \<and> events_of MainTask bad_mode_run =
        startup bad_mode_env @ wiring @
        [Cancel, StderrWrite (Error (WrapError ErrInvalidRunMode ''invalid run mode: 42'')
                   @ [CHR 0x0A]), TelemetryClose, Exit 1]
   \<and> cancelled_return_run =
        exec port_taken_env (replicate 16 MainTask @ replicate 5 ServerTask @ [MainTask]) init
   \<and> \<not> Run_returns port_taken_env
   \<and> (MainTask, RunReturn WebRunner None) \<in> set (trace cancelled_return_run)
   \<and> exit_status cancelled_return_run = None
   \<and> exit_status (exec port_taken_env (replicate 5 MainTask) cancelled_return_run) = Some 0
   \<and> cancelled_wait_run =
        exec port_taken_env (replicate 16 MainTask @ replicate 5 ServerTask) init
   \<and> cancelled cancelled_wait_run \<and> exit_status cancelled_wait_run = None
   \<and> exit_status (exec port_taken_env (replicate 21 MainTask) cancelled_wait_run) \<noteq> None
   \<and> exit_status (step port_taken_env MainTask cancelled_wait_run) = None
   \<and> remaining (main_pc (step port_taken_env MainTask cancelled_wait_run))
        < remaining (main_pc cancelled_wait_run)"
proof -
  note a7 = exit_status_follows_Run [OF clean_run_def, THEN conjunct2, THEN conjunct2, THEN conjunct2, THEN conjunct2, THEN conjunct2, THEN conjunct2, THEN conjunct1, rule_format]
  note b7 = exit_status_follows_Run [OF failed_run_def, THEN conjunct2, THEN conjunct2, THEN conjunct2, THEN conjunct2, THEN conjunct2, THEN conjunct2, THEN conjunct1, rule_format]
  note b3 = exit_status_follows_Run [OF failed_run_def, THEN conjunct2, THEN conjunct2, THEN conjunct1, rule_format]
  note c6 = exit_status_follows_Run [OF bad_mode_run_def, THEN conjunct2, THEN conjunct2, THEN conjunct2, THEN conjunct2, THEN conjunct2, THEN conjunct1, rule_format]
  note c2 = exit_status_follows_Run [OF bad_mode_run_def, THEN conjunct2, THEN conjunct1, rule_format]
  note d8 = exit_status_follows_Run [OF cancelled_return_run_def, THEN conjunct2, THEN conjunct2, THEN conjunct2, THEN conjunct2, THEN conjunct2, THEN conjunct2, THEN conjunct2, THEN conjunct1, rule_format]
  note e9 = exit_status_follows_Run [OF cancelled_wait_run_def, THEN conjunct2, THEN conjunct2, THEN conjunct2, THEN conjunct2, THEN conjunct2, THEN conjunct2, THEN conjunct2, THEN conjunct2, THEN conjunct1, rule_format]
  note e10 = exit_status_follows_Run [OF cancelled_wait_run_def, THEN conjunct2, THEN conjunct2, THEN conjunct2, THEN conjunct2, THEN conjunct2, THEN conjunct2, THEN conjunct2, THEN conjunct2, THEN conjunct2, rule_format]
  have a1: "exit_status clean_run = Some 0"
    using a7 [of FileRunner None] count_21 clean_run_facts(1-4) by simp
  have b1: "exit_status failed_run = Some 1"
    using b7 [of FileRunner "Some (ErrorString ''scrape failed'')"] count_21
      failed_run_facts(1-4) by simp
  have b2: "events_of MainTask failed_run =
        startup run_fails_env @ wiring @
        [RunCall FileRunner, RunReturn FileRunner (Some (ErrorString ''scrape failed'')),
         StderrWrite (Error (ErrorString ''scrape failed'') @ [CHR 0x0A]),
         CloseCall FileRunner, TelemetryClose, Cancel, Exit 1]"
    using b3 [of 1 FileRunner "ErrorString ''scrape failed''"] b1 failed_run_facts(5) by blast
  have c1: "exit_status bad_mode_run = Some 1"
    using c6 [of "WrapError ErrInvalidRunMode ''invalid run mode: 42''"] count_21
      bad_mode_run_facts(1,2) by blast
  have c2': "events_of MainTask bad_mode_run =
        startup bad_mode_env @ wiring @
        [Cancel, StderrWrite (Error (WrapError ErrInvalidRunMode ''invalid run mode: 42'')
                   @ [CHR 0x0A]), TelemetryClose, Exit 1]"
    using c2 [of 1 "WrapError ErrInvalidRunMode ''invalid run mode: 42''"] c1
      bad_mode_run_facts(2,4) by blast
  have d1: "exit_status (exec port_taken_env (replicate 5 MainTask) cancelled_return_run) = Some 0"
    using d8 [of WebRunner None "replicate 5 MainTask"] cancelled_return_facts(2) count_main(1)
    by simp
  have cs: "case resolved port_taken_env of
                     Inl e \<Rightarrow> True
                   | Inr r \<Rightarrow> Run port_taken_env r True \<noteq> Pending
                             \<and> (cancelled cancelled_wait_run
                                \<or> Run port_taken_env r False \<noteq> Pending)"
    using cancelled_wait_facts(3,8,9) by simp
  have e1: "exit_status (exec port_taken_env (replicate 21 MainTask) cancelled_wait_run) \<noteq> None"
    using e9 [of "replicate 21 MainTask"] count_21 cs by blast
  have nb: "\<not> (main_pc cancelled_wait_run = L78_wait
                   \<and> (\<exists>r. resolved port_taken_env = Inr r
                        \<and> Run port_taken_env r (cancelled cancelled_wait_run) = Pending))"
    using cancelled_wait_facts(6,8) by simp
  have e3: "exit_status (step port_taken_env MainTask cancelled_wait_run) \<noteq> None
            \<or> remaining (main_pc (step port_taken_env MainTask cancelled_wait_run))
                < remaining (main_pc cancelled_wait_run)"
    using e10 cancelled_wait_facts(4) nb by blast
  have e4: "remaining (main_pc (step port_taken_env MainTask cancelled_wait_run))
                < remaining (main_pc cancelled_wait_run)"
    using e3 cancelled_wait_facts(12) by simp
  show ?thesis
    using a1 b1 b2 c1 c2' clean_run_facts(5) clean_run_def failed_run_def bad_mode_run_def
      cancelled_return_facts(1-4) d1 cancelled_wait_facts(1,3,4,12) e1 e4
    by (intro conjI)
qed

text \<open>
  C4, as the code has it. The run-mode constants being distinct (they are the cases of
  one \<^verbatim>\<open>switch\<close>), the factory returns for each of the seven recognized values what
  the constructor of the matching package returns (database and database-produce share
  one), be it the runner or that constructor's error;
  for any other value it returns the error that wraps \<^verbatim>\<open>ErrInvalidRunMode\<close> and prints
  the mode. Whenever the factory returns an error, no call on any runner is ever made, the
  exit status can only be 1, and it is 1 once \<^verbatim>\<open>main\<close> has taken 21 steps.
\<close>

theorem runnerFactory_dispatch:
  assumes "distinct (recognized (modes E))" and "s = exec E sched init"
  shows "(RunMode (cfg E) = RunModeFile (modes E) \<longrightarrow>
            runnerFactory (modes E) (constructors E) (cfg E) = filerunner_New (constructors E) (cfg E))
       \<and> (RunMode (cfg E) = RunModeDatabase (modes E) \<longrightarrow>
            runnerFactory (modes E) (constructors E) (cfg E) = databaserunner_New (constructors E) (cfg E))
       \<and> (RunMode (cfg E) = RunModeDatabaseProduce (modes E) \<longrightarrow>
            runnerFactory (modes E) (constructors E) (cfg E) = databaserunner_New (constructors E) (cfg E))
       \<and> (RunMode (cfg E) = RunModeInstallPlaywright (modes E) \<longrightarrow>
            runnerFactory (modes E) (constructors E) (cfg E)
              = installplaywright_New (constructors E) (cfg E))
       \<and> (RunMode (cfg E) = RunModeWeb (modes E) \<longrightarrow>
            runnerFactory (modes E) (constructors E) (cfg E) = webrunner_New (constructors E) (cfg E))
       \<and> (RunMode (cfg E) = RunModeAwsLambda (modes E) \<longrightarrow>
            runnerFactory (modes E) (constructors E) (cfg E) = lambdaaws_New (constructors E) (cfg E))
       \<and> (RunMode (cfg E) = RunModeAwsLambdaInvoker (modes E) \<longrightarrow>
            runnerFactory (modes E) (constructors E) (cfg E)
              = lambdaaws_NewInvoker (constructors E) (cfg E))
       \<and> (RunMode (cfg E) \<notin> set (recognized (modes E)) \<longrightarrow>
            runnerFactory (modes E) (constructors E) (cfg E)
              = Inl (WrapError ErrInvalidRunMode (''invalid run mode: '' @ format_d (RunMode (cfg E))))
            \<and> errors_Is (WrapError ErrInvalidRunMode
                            (''invalid run mode: '' @ format_d (RunMode (cfg E))))
                 ErrInvalidRunMode)
       \<and> (\<forall>e. runnerFactory (modes E) (constructors E) (cfg E) = Inl e \<longrightarrow>
            runner_calls s = []
            \<and> (\<forall>c. exit_status s = Some c \<longrightarrow> c = 1)
            \<and> (21 \<le> count_list sched MainTask \<longrightarrow> exit_status s = Some 1))"
proof -
  have i: "inv E s"
    unfolding assms(2) by (rule inv_reachable)
  have d: "distinct [RunModeFile (modes E), RunModeDatabase (modes E),
      RunModeDatabaseProduce (modes E), RunModeInstallPlaywright (modes E), RunModeWeb (modes E),
      RunModeAwsLambda (modes E), RunModeAwsLambdaInvoker (modes E)]"
    using assms(1) by (simp add: recognized_def)
  have r1: "RunMode (cfg E) = RunModeFile (modes E) \<longrightarrow>
            runnerFactory (modes E) (constructors E) (cfg E) = filerunner_New (constructors E) (cfg E)"
    by (simp add: runnerFactory_def)
  have r2: "RunMode (cfg E) = RunModeDatabase (modes E) \<longrightarrow>
            runnerFactory (modes E) (constructors E) (cfg E) = databaserunner_New (constructors E) (cfg E)"
    using d by (auto simp: runnerFactory_def)
  have r3: "RunMode (cfg E) = RunModeDatabaseProduce (modes E) \<longrightarrow>
            runnerFactory (modes E) (constructors E) (cfg E) = databaserunner_New (constructors E) (cfg E)"
    using d by (auto simp: runnerFactory_def)
  have r4: "RunMode (cfg E) = RunModeInstallPlaywright (modes E) \<longrightarrow>
            runnerFactory (modes E) (constructors E) (cfg E)
              = installplaywright_New (constructors E) (cfg E)"
    using d by (auto simp: runnerFactory_def)
  have r5: "RunMode (cfg E) = RunModeWeb (modes E) \<longrightarrow>
            runnerFactory (modes E) (constructors E) (cfg E) = webrunner_New (constructors E) (cfg E)"
    using d by (auto simp: runnerFactory_def)
  have r6: "RunMode (cfg E) = RunModeAwsLambda (modes E) \<longrightarrow>
            runnerFactory (modes E) (constructors E) (cfg E) = lambdaaws_New (constructors E) (cfg E)"
    using d by (auto simp: runnerFactory_def)
  have r7: "RunMode (cfg E) = RunModeAwsLambdaInvoker (modes E) \<longrightarrow>
            runnerFactory (modes E) (constructors E) (cfg E)
              = lambdaaws_NewInvoker (constructors E) (cfg E)"
    using d by (auto simp: runnerFactory_def)
  have unrec: "RunMode (cfg E) \<notin> set (recognized (modes E)) \<longrightarrow>
            runnerFactory (modes E) (constructors E) (cfg E)
              = Inl (WrapError ErrInvalidRunMode (''invalid run mode: '' @ format_d (RunMode (cfg E))))
            \<and> errors_Is (WrapError ErrInvalidRunMode
                            (''invalid run mode: '' @ format_d (RunMode (cfg E))))
                 ErrInvalidRunMode"
    by (simp add: runnerFactory_def recognized_def Errorf_w_d_def ErrInvalidRunMode_text_def)
  have proc: "runner_calls s = []
            \<and> (\<forall>c. exit_status s = Some c \<longrightarrow> c = 1)
            \<and> (21 \<le> count_list sched MainTask \<longrightarrow> exit_status s = Some 1)"
    if f: "runnerFactory (modes E) (constructors E) (cfg E) = Inl e" for e
  proof -
    have r: "resolved E = Inl e" using f by (simp add: resolved_def)
    have rr: "Run_returns E" using r by (simp add: Run_returns_def)
    have c1: "\<forall>c. exit_status s = Some c \<longrightarrow> c = 1"
      using exit_code_without_resolution [OF i r] by blast
    have "exit_status s \<noteq> None" if "21 \<le> count_list sched MainTask"
      unfolding assms(2) using rr that by (rule exits_eventually)
    then have c2: "21 \<le> count_list sched MainTask \<longrightarrow> exit_status s = Some 1"
      using c1 by auto
    show ?thesis
      using no_runner_without_resolution [OF i r] c1 c2 by (intro conjI)
  qed
  then have proc': "\<forall>e. runnerFactory (modes E) (constructors E) (cfg E) = Inl e \<longrightarrow>
            runner_calls s = []
            \<and> (\<forall>c. exit_status s = Some c \<longrightarrow> c = 1)
            \<and> (21 \<le> count_list sched MainTask \<longrightarrow> exit_status s = Some 1)"
    by (intro allI impI)
  show ?thesis
    using r1 r2 r3 r4 r5 r6 r7 unrec proc' by (intro conjI)
qed

theorem runnerFactory_dispatch_witness:
  "distinct (recognized (modes bad_mode_env))
   \<and> bad_mode_run = exec bad_mode_env (replicate 21 MainTask) init
   \<and> RunMode (cfg bad_mode_env) \<notin> set (recognized (modes bad_mode_env))
   \<and> runnerFactory (modes bad_mode_env) (constructors bad_mode_env) (cfg bad_mode_env)
        = Inl (WrapError ErrInvalidRunMode ''invalid run mode: 42'')
   \<and> runner_calls bad_mode_run = []
   \<and> exit_status bad_mode_run = Some 1"
proof -
  note a = runnerFactory_dispatch [OF bad_mode_run_facts(6) bad_mode_run_def]
  have "runner_calls bad_mode_run = [] \<and> exit_status bad_mode_run = Some 1"
    using a bad_mode_run_facts(3) count_21 by blast
  then show ?thesis
    using bad_mode_run_facts(3,6,7) bad_mode_run_def by (intro conjI) simp_all
qed

text \<open>
  The claim as stated has the factory return the matching runner for every recognized mode.
  With the file mode selected and a file runner whose constructor fails, the factory returns
  that error and no runner.
\<close>

theorem runnerFactory_constructor_error_counterexample:
  "RunMode (cfg no_input_env) = RunModeFile (modes no_input_env)
   \<and> runnerFactory (modes no_input_env) (constructors no_input_env) (cfg no_input_env)
       = Inl (ErrorString ''open input.txt: no such file or directory'')"
  by (simp add: no_input_env_def example_env_def example_modes_def example_constructors_def
      runnerFactory_def)

text \<open>
  C5. In every execution the calls on runners, by all tasks together, are a beginning of
  the sequence: \<^verbatim>\<open>Run\<close> called on the resolved runner, \<^verbatim>\<open>Run\<close> returned, \<^verbatim>\<open>Close\<close>
  called on the same runner; all three are made by \<^verbatim>\<open>main\<close>. If \<^verbatim>\<open>Run\<close> was called and
  the process has exited, the sequence is complete, with status 0 when \<^verbatim>\<open>Run\<close> returned
  nil and 1 when it returned an error: \<^verbatim>\<open>Close\<close> was called exactly once, after \<^verbatim>\<open>Run\<close>
  returned. It is complete once \<^verbatim>\<open>main\<close> has taken 21 steps, provided \<^verbatim>\<open>Run\<close> returns.
  And \<^verbatim>\<open>Close\<close> is called: from any reachable state in which \<^verbatim>\<open>Run\<close> has returned, be
  it on its own or because the context was cancelled, two more steps of \<^verbatim>\<open>main\<close> under
  any schedule complete the sequence with the call of \<^verbatim>\<open>Close\<close> on that runner; from any
  reachable state in which \<^verbatim>\<open>Run\<close> has been called, three more steps of \<^verbatim>\<open>main\<close>
  complete it when the runner returns once the context is cancelled and either the context
  is cancelled already or the runner returns without that.
\<close>

theorem Close_once_after_Run:
  assumes "s = exec E sched init"
  shows "(\<exists>r e n. runner_calls s =
             take n [(MainTask, RunCall r), (MainTask, RunReturn r e), (MainTask, CloseCall r)]
           \<and> (n \<noteq> 0 \<longrightarrow> resolved E = Inr r))
       \<and> (\<forall>r c. (MainTask, RunCall r) \<in> set (trace s) \<and> exit_status s = Some c \<longrightarrow>
            (\<exists>e. runner_calls s =
               [(MainTask, RunCall r), (MainTask, RunReturn r e), (MainTask, CloseCall r)]
             \<and> c = (if e = None then 0 else 1)))
       \<and> (\<forall>r. Run_returns E \<and> 21 \<le> count_list sched MainTask
              \<and> (MainTask, RunCall r) \<in> set (trace s) \<longrightarrow>
            (\<exists>e. runner_calls s =
               [(MainTask, RunCall r), (MainTask, RunReturn r e), (MainTask, CloseCall r)]))
       \<and> (\<forall>rest r x. (MainTask, RunReturn r x) \<in> set (trace s)
              \<and> 2 \<le> count_list rest MainTask \<longrightarrow>
            runner_calls (exec E rest s) =
              [(MainTask, RunCall r), (MainTask, RunReturn r x), (MainTask, CloseCall r)])
       \<and> (\<forall>rest r. (MainTask, RunCall r) \<in> set (trace s)
              \<and> Run E r True \<noteq> Pending \<and> (cancelled s \<or> Run E r False \<noteq> Pending)
              \<and> 3 \<le> count_list rest MainTask \<longrightarrow>
            (\<exists>x. runner_calls (exec E rest s) =
               [(MainTask, RunCall r), (MainTask, RunReturn r x), (MainTask, CloseCall r)]))"
proof -
  have i: "inv E s"
    unfolding assms by (rule inv_reachable)
  have 3: "\<exists>e. runner_calls s =
               [(MainTask, RunCall r), (MainTask, RunReturn r e), (MainTask, CloseCall r)]"
    if a: "Run_returns E" "21 \<le> count_list sched MainTask"
      and b: "(MainTask, RunCall r) \<in> set (trace s)" for r
  proof -
    have "exit_status s \<noteq> None"
      unfolding assms using a by (rule exits_eventually)
    then obtain c where c: "exit_status s = Some c" by blast
    from runner_calls_at_exit [OF i c b] show ?thesis by blast
  qed
  have 4: "runner_calls (exec E rest s) =
              [(MainTask, RunCall r), (MainTask, RunReturn r x), (MainTask, CloseCall r)]"
    if "(MainTask, RunReturn r x) \<in> set (trace s)" and "2 \<le> count_list rest MainTask"
    for rest r x
    using i that by (rule Close_after_Run_returned)
  have 5: "\<exists>x. runner_calls (exec E rest s) =
               [(MainTask, RunCall r), (MainTask, RunReturn r x), (MainTask, CloseCall r)]"
    if a: "(MainTask, RunCall r) \<in> set (trace s)"
      and b: "Run E r True \<noteq> Pending" "cancelled s \<or> Run E r False \<noteq> Pending"
      and c: "3 \<le> count_list rest MainTask" for rest r
  proof -
    have c1: "1 \<le> calls_at (main_pc s)" and rs: "resolved E = Inr r"
      using calls_at_from_trace(1) [OF i a] by simp_all
    have u: "unblocked E s" using rs b by (simp add: unblocked_def)
    have l: "until_close (main_pc s) \<le> count_list rest MainTask"
      using until_close_le [OF c1] c by simp
    show ?thesis
      by (rule exI, rule Close_called_when_unblocked [OF i u a l])
  qed
  have all3: "\<forall>r. Run_returns E \<and> 21 \<le> count_list sched MainTask
              \<and> (MainTask, RunCall r) \<in> set (trace s) \<longrightarrow>
            (\<exists>e. runner_calls s =
               [(MainTask, RunCall r), (MainTask, RunReturn r e), (MainTask, CloseCall r)])"
    using 3 by blast
  have all4: "\<forall>rest r x. (MainTask, RunReturn r x) \<in> set (trace s)
              \<and> 2 \<le> count_list rest MainTask \<longrightarrow>
            runner_calls (exec E rest s) =
              [(MainTask, RunCall r), (MainTask, RunReturn r x), (MainTask, CloseCall r)]"
    using 4 by blast
  have all5: "\<forall>rest r. (MainTask, RunCall r) \<in> set (trace s)
              \<and> Run E r True \<noteq> Pending \<and> (cancelled s \<or> Run E r False \<noteq> Pending)
              \<and> 3 \<le> count_list rest MainTask \<longrightarrow>
            (\<exists>x. runner_calls (exec E rest s) =
               [(MainTask, RunCall r), (MainTask, RunReturn r x), (MainTask, CloseCall r)])"
    using 5 by blast
  have all2: "\<forall>r c. (MainTask, RunCall r) \<in> set (trace s) \<and> exit_status s = Some c \<longrightarrow>
            (\<exists>e. runner_calls s =
               [(MainTask, RunCall r), (MainTask, RunReturn r e), (MainTask, CloseCall r)]
             \<and> c = (if e = None then 0 else 1))"
    using runner_calls_at_exit [OF i] by blast
  show ?thesis
    using runner_calls_prefix [OF i] all2 all3 all4 all5 by (intro conjI)
qed

theorem Close_once_after_Run_witness:
  "clean_run = exec example_env (replicate 21 MainTask) init
   \<and> (MainTask, RunCall FileRunner) \<in> set (trace clean_run)
   \<and> runner_calls clean_run =
        [(MainTask, RunCall FileRunner), (MainTask, RunReturn FileRunner None),
         (MainTask, CloseCall FileRunner)]
   \<and> failed_run = exec run_fails_env (replicate 21 MainTask) init
   \<and> (MainTask, RunCall FileRunner) \<in> set (trace failed_run)
   \<and> runner_calls failed_run =
        [(MainTask, RunCall FileRunner),
         (MainTask, RunReturn FileRunner (Some (ErrorString ''scrape failed''))),
         (MainTask, CloseCall FileRunner)]
   \<and> cancelled_return_run =
        exec port_taken_env (replicate 16 MainTask @ replicate 5 ServerTask @ [MainTask]) init
   \<and> \<not> Run_returns port_taken_env
   \<and> (MainTask, RunReturn WebRunner None) \<in> set (trace cancelled_return_run)
   \<and> runner_calls cancelled_return_run =
        [(MainTask, RunCall WebRunner), (MainTask, RunReturn WebRunner None)]
   \<and> runner_calls (exec port_taken_env [MainTask, ServerTask, MainTask] cancelled_return_run) =
        [(MainTask, RunCall WebRunner), (MainTask, RunReturn WebRunner None),
         (MainTask, CloseCall WebRunner)]
   \<and> cancelled_wait_run =
        exec port_taken_env (replicate 16 MainTask @ replicate 5 ServerTask) init
   \<and> (MainTask, RunCall WebRunner) \<in> set (trace cancelled_wait_run)
   \<and> cancelled cancelled_wait_run
   \<and> runner_calls cancelled_wait_run = [(MainTask, RunCall WebRunner)]
   \<and> (\<exists>x. runner_calls (exec port_taken_env [MainTask, MainTask, MainTask] cancelled_wait_run) =
        [(MainTask, RunCall WebRunner), (MainTask, RunReturn WebRunner x),
         (MainTask, CloseCall WebRunner)])"
proof -
  note a3 = Close_once_after_Run [OF clean_run_def, THEN conjunct2, THEN conjunct2, THEN conjunct1, rule_format]
  note b3 = Close_once_after_Run [OF failed_run_def, THEN conjunct2, THEN conjunct2, THEN conjunct1, rule_format]
  note c4 = Close_once_after_Run [OF cancelled_return_run_def, THEN conjunct2, THEN conjunct2, THEN conjunct2, THEN conjunct1, rule_format]
  note d5 = Close_once_after_Run [OF cancelled_wait_run_def, THEN conjunct2, THEN conjunct2, THEN conjunct2, THEN conjunct2, rule_format]
  have "\<exists>e. runner_calls clean_run =
        [(MainTask, RunCall FileRunner), (MainTask, RunReturn FileRunner e),
         (MainTask, CloseCall FileRunner)]"
    using a3 [of FileRunner] count_21 clean_run_facts(6,7) by blast
  then obtain e where e: "runner_calls clean_run =
        [(MainTask, RunCall FileRunner), (MainTask, RunReturn FileRunner e),
         (MainTask, CloseCall FileRunner)]" by blast
  have "(MainTask, RunReturn FileRunner None) \<in> set (runner_calls clean_run)"
    using clean_run_facts(5) by (simp add: runner_calls_def)
  then have e1: "e = None" using e by simp
  have "\<exists>e. runner_calls failed_run =
        [(MainTask, RunCall FileRunner), (MainTask, RunReturn FileRunner e),
         (MainTask, CloseCall FileRunner)]"
    using b3 [of FileRunner] count_21 failed_run_facts(6,7) by blast
  then obtain f where f: "runner_calls failed_run =
        [(MainTask, RunCall FileRunner), (MainTask, RunReturn FileRunner f),
         (MainTask, CloseCall FileRunner)]" by blast
  have "(MainTask, RunReturn FileRunner (Some (ErrorString ''scrape failed'')))
          \<in> set (runner_calls failed_run)"
    using failed_run_facts(5) by (simp add: runner_calls_def)
  then have f1: "f = Some (ErrorString ''scrape failed'')" using f by simp
  have c1: "runner_calls (exec port_taken_env [MainTask, ServerTask, MainTask] cancelled_return_run) =
        [(MainTask, RunCall WebRunner), (MainTask, RunReturn WebRunner None),
         (MainTask, CloseCall WebRunner)]"
    using c4 [of WebRunner None "[MainTask, ServerTask, MainTask]"]
      cancelled_return_facts(2) count_main(2) by blast
  have d1: "\<exists>x. runner_calls (exec port_taken_env [MainTask, MainTask, MainTask] cancelled_wait_run) =
        [(MainTask, RunCall WebRunner), (MainTask, RunReturn WebRunner x),
         (MainTask, CloseCall WebRunner)]"
    using d5 [of WebRunner "[MainTask, MainTask, MainTask]"]
      cancelled_wait_facts(2,3,9) count_main(3) by blast
  have e2: "runner_calls clean_run =
        [(MainTask, RunCall FileRunner), (MainTask, RunReturn FileRunner None),
         (MainTask, CloseCall FileRunner)]"
    using e e1 by simp
  have f2: "runner_calls failed_run =
        [(MainTask, RunCall FileRunner),
         (MainTask, RunReturn FileRunner (Some (ErrorString ''scrape failed''))),
         (MainTask, CloseCall FileRunner)]"
    using f f1 by simp
  show ?thesis
    using e2 f2 clean_run_facts(6) failed_run_facts(6) clean_run_def failed_run_def
      cancelled_return_facts(1,2,4,5) c1 cancelled_wait_facts(1,2,3,7) d1
    by (intro conjI)
qed

text \<open>
  C8, as the code has it. In every execution no task ever calls \<^verbatim>\<open>Server.Shutdown\<close>, and
  only \<^verbatim>\<open>main\<close> exits the process. A process that has exited did so in one of three
  ways: by \<^verbatim>\<open>log.Fatal\<close> at line 50 after \<^verbatim>\<open>sql.Open\<close> failed, before the server task
  was started; at line 75 after the factory failed; or at line 83 or 89 after \<^verbatim>\<open>Run\<close>
  returned. What \<^verbatim>\<open>main\<close> does next never depends on where the server task stands (it
  is not joined), and what the server task does next never depends on the root context
  being cancelled (it is not shut down by cancellation).
\<close>

theorem server_never_shut_down:
  assumes "s = exec E sched init"
  shows "(\<forall>t. (t, ShutdownCall) \<notin> set (trace s))
       \<and> (\<forall>t c. (t, Exit c) \<in> set (trace s) \<longrightarrow> t = MainTask)
       \<and> (\<forall>c. exit_status s = Some c \<longrightarrow>
             (server_pc s = None \<and> main_pc s = L50
                \<and> (\<exists>e. sql_Open E ''pgx'' (Dsn (cfg E)) = Some e))
             \<or> (server_pc s \<noteq> None \<and> main_pc s = L75 \<and> (\<exists>e. resolved E = Inl e))
             \<or> (server_pc s \<noteq> None \<and> main_pc s \<in> {L83, L89}
                \<and> (\<exists>r e. (MainTask, RunReturn r e) \<in> set (trace s))))
       \<and> (\<forall>p q. main_pc (step E MainTask (s\<lparr>server_pc := p, server_err := q\<rparr>))
                   = main_pc (step E MainTask s)
                \<and> exit_status (step E MainTask (s\<lparr>server_pc := p, server_err := q\<rparr>))
                   = exit_status (step E MainTask s))
       \<and> (\<forall>b. server_pc (step E ServerTask (s\<lparr>cancelled := b\<rparr>))
                 = server_pc (step E ServerTask s))"
proof -
  have i: "inv E s"
    unfolding assms by (rule inv_reachable)
  have 1: "\<forall>t. (t, ShutdownCall) \<notin> set (trace s)"
    using no_shutdown [OF i] by blast
  have 2: "\<forall>t c. (t, Exit c) \<in> set (trace s) \<longrightarrow> t = MainTask"
    using exit_by_main [OF i] by blast
  have 3: "\<forall>c. exit_status s = Some c \<longrightarrow>
             (server_pc s = None \<and> main_pc s = L50
                \<and> (\<exists>e. sql_Open E ''pgx'' (Dsn (cfg E)) = Some e))
             \<or> (server_pc s \<noteq> None \<and> main_pc s = L75 \<and> (\<exists>e. resolved E = Inl e))
             \<or> (server_pc s \<noteq> None \<and> main_pc s \<in> {L83, L89}
                \<and> (\<exists>r e. (MainTask, RunReturn r e) \<in> set (trace s)))"
    using exit_reasons [OF i] by blast
  have 4: "\<forall>p q. main_pc (step E MainTask (s\<lparr>server_pc := p, server_err := q\<rparr>))
                   = main_pc (step E MainTask s)
                \<and> exit_status (step E MainTask (s\<lparr>server_pc := p, server_err := q\<rparr>))
                   = exit_status (step E MainTask s)"
    using main_ignores_server by blast
  have 5: "\<forall>b. server_pc (step E ServerTask (s\<lparr>cancelled := b\<rparr>))
                 = server_pc (step E ServerTask s)"
    using server_ignores_cancel by blast
  show ?thesis using 1 2 3 4 5 by (intro conjI)
qed

theorem server_never_shut_down_witness:
  "signalled_run = exec web_env signalled_schedule init
   \<and> exit_status signalled_run = Some 0
   \<and> server_pc signalled_run = Some L63_wait
   \<and> (SignalTask, Cancel) \<in> set (trace signalled_run)
   \<and> (MainTask, ShutdownCall) \<notin> set (trace signalled_run)
   \<and> (ServerTask, ShutdownCall) \<notin> set (trace signalled_run)
   \<and> (SignalTask, ShutdownCall) \<notin> set (trace signalled_run)
   \<and> (MainTask, RunReturn WebRunner None) \<in> set (trace signalled_run)"
  using server_never_shut_down [OF signalled_run_facts(1)] signalled_run_facts
  by blast

text \<open>
  The claim as stated lets only the return of \<^verbatim>\<open>Run\<close> or a failed factory end the
  process. With a DSN that \<^verbatim>\<open>sql.Open\<close> refuses, the process exits with 1 after ten steps
  of \<^verbatim>\<open>main\<close>: the factory was never called, no runner was run, and the server task was
  never started.
\<close>

theorem log_Fatal_exit_counterexample:
  "exit_status (exec bad_dsn_env (replicate 10 MainTask) init) = Some 1
   \<and> (MainTask, Factory) \<notin> set (trace (exec bad_dsn_env (replicate 10 MainTask) init))
   \<and> runner_calls (exec bad_dsn_env (replicate 10 MainTask) init) = []
   \<and> server_pc (exec bad_dsn_env (replicate 10 MainTask) init) = None"
  by code_simp

text \<open>
  C10. When \<^verbatim>\<open>Start\<close> has returned an error other than \<^verbatim>\<open>http.ErrServerClosed\<close>, the
  server goroutine cancels the root context: after two more of its steps, however the other
  tasks are scheduled in between and unless the process has exited by then, the context is
  cancelled and the goroutine's call of \<^verbatim>\<open>cancel\<close> is in the trace; a goroutine that has
  run to its end has done so. A cancelled context stays cancelled, and a \<^verbatim>\<open>Run\<close> that
  \<^verbatim>\<open>main\<close> waits for is then asked with the cancelled context: the runner sees the
  cancellation. When \<^verbatim>\<open>main\<close> waits in a \<^verbatim>\<open>Run\<close> that does not return before the
  context is cancelled, and no signal arrives, the process cannot exit before the goroutine
  has cancelled: after two steps of the goroutine the context is cancelled by it, whatever
  the schedule.
\<close>

theorem server_failure_cancels_root_context:
  assumes "s = exec E sched init"
    and "(ServerTask, StartReturn (Some e)) \<in> set (trace s)" and "e \<noteq> ErrServerClosed"
  shows "(\<forall>rest. 2 \<le> count_list rest ServerTask \<and> exit_status (exec E rest s) = None \<longrightarrow>
            cancelled (exec E rest s) \<and> (ServerTask, Cancel) \<in> set (trace (exec E rest s)))
       \<and> (server_pc s = Some server_done \<longrightarrow>
            cancelled s \<and> (ServerTask, Cancel) \<in> set (trace s))
       \<and> (\<forall>rest. cancelled s \<longrightarrow> cancelled (exec E rest s))
       \<and> (\<forall>r x. cancelled s \<and> exit_status s = None \<and> main_pc s = L78_wait
               \<and> resolved E = Inr r \<and> Run E r True = Returned x \<longrightarrow>
            trace (step E MainTask s) = trace s @ [(MainTask, RunReturn r x)])
       \<and> (\<forall>rest r. main_pc s = L78_wait \<and> exit_status s = None \<and> \<not> cancelled s
               \<and> resolved E = Inr r \<and> Run E r False = Pending \<and> \<not> signal E
               \<and> 2 \<le> count_list rest ServerTask \<longrightarrow>
            cancelled (exec E rest s) \<and> (ServerTask, Cancel) \<in> set (trace (exec E rest s)))"
proof -
  have i: "inv E s"
    unfolding assms(1) by (rule inv_reachable)
  have sf: "start_failed s"
    using start_failed_from_trace [OF i assms(2,3)] by simp
  have 1: "cancelled (exec E rest s) \<and> (ServerTask, Cancel) \<in> set (trace (exec E rest s))"
    if a: "2 \<le> count_list rest ServerTask" and b: "exit_status (exec E rest s) = None" for rest
  proof -
    have i': "inv E (exec E rest s)" using i by (rule inv_exec)
    have "start_failed (exec E rest s)
         \<and> server_remaining (server_pc (exec E rest s))
             \<le> server_remaining (server_pc s) - count_list rest ServerTask"
      using i sf b by (rule server_remaining_exec)
    moreover have "server_remaining (server_pc s) - count_list rest ServerTask = 0"
      using server_remaining_le [of "server_pc s"] a by simp
    ultimately have "start_failed (exec E rest s)"
      and "server_remaining (server_pc (exec E rest s)) = 0"
      by simp_all
    with i' show ?thesis by (rule start_failed_done)
  qed
  have 2: "server_pc s = Some server_done \<longrightarrow>
            cancelled s \<and> (ServerTask, Cancel) \<in> set (trace s)"
    using start_failed_done [OF i sf] by simp
  have 3: "\<forall>rest. cancelled s \<longrightarrow> cancelled (exec E rest s)"
    using cancelled_exec by blast
  have 4: "\<forall>r x. cancelled s \<and> exit_status s = None \<and> main_pc s = L78_wait
               \<and> resolved E = Inr r \<and> Run E r True = Returned x \<longrightarrow>
            trace (step E MainTask s) = trace s @ [(MainTask, RunReturn r x)]"
    using Run_sees_cancellation [OF i] by blast
  have all1: "\<forall>rest. 2 \<le> count_list rest ServerTask \<and> exit_status (exec E rest s) = None \<longrightarrow>
            cancelled (exec E rest s) \<and> (ServerTask, Cancel) \<in> set (trace (exec E rest s))"
    using 1 by blast
  have 5: "cancelled (exec E rest s) \<and> (ServerTask, Cancel) \<in> set (trace (exec E rest s))"
    if a: "main_pc s = L78_wait" "exit_status s = None" "\<not> cancelled s"
      and b: "resolved E = Inr r" "Run E r False = Pending" "\<not> signal E"
      and c: "2 \<le> count_list rest ServerTask" for rest r
  proof -
    have "blocked_or_cancelled s"
      using a sf by (simp add: blocked_or_cancelled_def)
    with i b have "blocked_or_cancelled (exec E rest s)"
      by (rule blocked_or_cancelled_exec)
    then show ?thesis
      unfolding blocked_or_cancelled_def
    proof
      assume "main_pc (exec E rest s) = L78_wait \<and> exit_status (exec E rest s) = None
        \<and> \<not> cancelled (exec E rest s) \<and> start_failed (exec E rest s)"
      then show ?thesis using 1 [OF c] by simp
    next
      assume "cancelled (exec E rest s) \<and> (ServerTask, Cancel) \<in> set (trace (exec E rest s))"
      then show ?thesis .
    qed
  qed
  have all5: "\<forall>rest r. main_pc s = L78_wait \<and> exit_status s = None \<and> \<not> cancelled s
               \<and> resolved E = Inr r \<and> Run E r False = Pending \<and> \<not> signal E
               \<and> 2 \<le> count_list rest ServerTask \<longrightarrow>
            cancelled (exec E rest s) \<and> (ServerTask, Cancel) \<in> set (trace (exec E rest s))"
    using 5 by blast
  show ?thesis using all1 2 3 4 all5 by (intro conjI)
qed

theorem server_failure_cancels_root_context_witness:
  "port_taken_run = exec port_taken_env (replicate 16 MainTask @ replicate 3 ServerTask) init
   \<and> (ServerTask, StartReturn (Some (ErrorString ''listen tcp :6060: bind: address already in use'')))
        \<in> set (trace port_taken_run)
   \<and> ErrorString ''listen tcp :6060: bind: address already in use'' \<noteq> ErrServerClosed
   \<and> \<not> cancelled port_taken_run
   \<and> main_pc port_taken_run = L78_wait \<and> exit_status port_taken_run = None
   \<and> resolved port_taken_env = Inr WebRunner
   \<and> Run port_taken_env WebRunner False = Pending \<and> \<not> signal port_taken_env
   \<and> 2 \<le> count_list [ServerTask, MainTask, ServerTask, MainTask] ServerTask
   \<and> cancelled (exec port_taken_env [ServerTask, MainTask, ServerTask, MainTask] port_taken_run)
   \<and> (ServerTask, Cancel)
        \<in> set (trace (exec port_taken_env [ServerTask, MainTask, ServerTask, MainTask]
                          port_taken_run))
   \<and> cancelled (exec port_taken_env [ServerTask, ServerTask] port_taken_run)
   \<and> (ServerTask, Cancel) \<in> set (trace (exec port_taken_env [ServerTask, ServerTask] port_taken_run))"
proof -
  have ne: "ErrorString ''listen tcp :6060: bind: address already in use'' \<noteq> ErrServerClosed"
    by simp
  have c: "2 \<le> count_list [ServerTask, ServerTask] ServerTask"
    "2 \<le> count_list [ServerTask, MainTask, ServerTask, MainTask] ServerTask"
    by simp_all
  show ?thesis
    using server_failure_cancels_root_context [OF port_taken_facts(1,2) ne]
      port_taken_facts c ne
    by blast
qed


end
